theory Spec2Isabelle
  imports Complex_Main "HOL-Library.AList" "HOL-Library.Sublist"
begin

section \<open>The MSP rate service (src/services/mspService.ts)\<close>

text \<open>
  The service is TypeScript over untyped JSON: the provider's answer is parsed by
  \<^verbatim>\<open>JSON.parse\<close> and stored as it comes, so the values the code handles are JavaScript
  values, not instances of the \<^verbatim>\<open>MSPRate\<close> interface. The embedding therefore has a datatype
  of JavaScript values, the coercions the code relies on (truthiness, \<^verbatim>\<open>||\<close>, ToNumber,
  \<^verbatim>\<open>parseFloat\<close>, \<^verbatim>\<open>parseInt\<close>), exceptions as values of a sum type, and the module's
  mutable cache as explicit state.

  Idealisations, all on the side of the language runtime and none on the side of the
  service's own code:
  \<^item> a finite IEEE double is an exact rational (no rounding, no overflow, one zero);
    \<^verbatim>\<open>NaN\<close> and the two infinities are values of their own;
  \<^item> a string is a list of 8-bit characters (the UTF-8 bytes of the text); the fence
    markers and the JSON syntax are ASCII, so matching is not affected;
  \<^item> the order of an object's properties is the order of insertion;
  \<^item> a promise that never settles (a provider call that hangs) is not modelled: the
    provider answers with a text or throws.
\<close>

subsection \<open>Numbers\<close>

datatype jsnum = NaN | NegInfinity | Num rat | Infinity

fun num_neg :: "jsnum \<Rightarrow> jsnum" where
  "num_neg NaN = NaN"
| "num_neg NegInfinity = Infinity"
| "num_neg (Num r) = Num (- r)"
| "num_neg Infinity = NegInfinity"

fun num_add :: "jsnum \<Rightarrow> jsnum \<Rightarrow> jsnum" where
  "num_add NaN b = NaN"
| "num_add a NaN = NaN"
| "num_add (Num a) (Num b) = Num (a + b)"
| "num_add Infinity NegInfinity = NaN"
| "num_add NegInfinity Infinity = NaN"
| "num_add Infinity b = Infinity"
| "num_add a Infinity = Infinity"
| "num_add NegInfinity b = NegInfinity"
| "num_add a NegInfinity = NegInfinity"

definition num_sub :: "jsnum \<Rightarrow> jsnum \<Rightarrow> jsnum" where
  "num_sub a b = num_add a (num_neg b)"

fun num_mul :: "jsnum \<Rightarrow> jsnum \<Rightarrow> jsnum" where
  "num_mul NaN b = NaN"
| "num_mul a NaN = NaN"
| "num_mul (Num a) (Num b) = Num (a * b)"
| "num_mul (Num a) b = (if a = 0 then NaN else if 0 < a then b else num_neg b)"
| "num_mul a (Num b) = (if b = 0 then NaN else if 0 < b then a else num_neg a)"
| "num_mul a b = (if a = b then Infinity else NegInfinity)"

text \<open>Division by the (single, positive) zero of the model.\<close>

fun num_div :: "jsnum \<Rightarrow> jsnum \<Rightarrow> jsnum" where
  "num_div NaN b = NaN"
| "num_div a NaN = NaN"
| "num_div (Num a) (Num b) =
     (if b = 0 then (if a = 0 then NaN else if 0 < a then Infinity else NegInfinity)
      else Num (a / b))"
| "num_div (Num a) b = Num 0"
| "num_div a (Num b) = (if 0 \<le> b then a else num_neg a)"
| "num_div a b = NaN"

text \<open>\<^verbatim>\<open>a > b\<close> on numbers: false as soon as one side is \<^verbatim>\<open>NaN\<close>.\<close>

fun num_gt :: "jsnum \<Rightarrow> jsnum \<Rightarrow> bool" where
  "num_gt NaN b = False"
| "num_gt a NaN = False"
| "num_gt (Num a) (Num b) = (b < a)"
| "num_gt Infinity b = (b \<noteq> Infinity)"
| "num_gt NegInfinity b = False"
| "num_gt (Num a) b = (b = NegInfinity)"

text \<open>
  \<^verbatim>\<open>parseFloat(x.toFixed(1))\<close>. \<^verbatim>\<open>toFixed(1)\<close> prints the multiple of 1/10 nearest to
  the absolute value (the larger one on a tie) behind the sign, and prints the number
  itself from \<^verbatim>\<open>1e21\<close> on; \<^verbatim>\<open>NaN\<close> and the infinities print as their names, which
  \<^verbatim>\<open>parseFloat\<close> reads back. The decimal string is only ever parsed back at once, so
  the pair is modelled by its numeric effect.
\<close>

definition round1 :: "rat \<Rightarrow> rat" where
  "round1 x = (if 10 ^ 21 \<le> \<bar>x\<bar> then x else sgn x * (of_int \<lfloor>\<bar>x\<bar> * 10 + 1 / 2\<rfloor> / 10))"

fun parseFloat_toFixed1 :: "jsnum \<Rightarrow> jsnum" where
  "parseFloat_toFixed1 (Num x) = Num (round1 x)"
| "parseFloat_toFixed1 n = n"

subsection \<open>Strings\<close>

fun startsWith :: "string \<Rightarrow> string \<Rightarrow> bool" where
  "startsWith [] s = True"
| "startsWith (p # ps) [] = False"
| "startsWith (p # ps) (c # cs) = (p = c \<and> startsWith ps cs)"

text \<open>\<^verbatim>\<open>s.includes(sub)\<close>.\<close>

fun includes_str :: "string \<Rightarrow> string \<Rightarrow> bool" where
  "includes_str sub [] = startsWith sub []"
| "includes_str sub (c # cs) = (startsWith sub (c # cs) \<or> includes_str sub cs)"

definition lower_char :: "char \<Rightarrow> char" where
  "lower_char c =
     (case map_of (zip ''ABCDEFGHIJKLMNOPQRSTUVWXYZ'' ''abcdefghijklmnopqrstuvwxyz'') c of
        None \<Rightarrow> c | Some l \<Rightarrow> l)"

definition toLowerCase :: "string \<Rightarrow> string" where
  "toLowerCase s = map lower_char s"

definition is_digit :: "char \<Rightarrow> bool" where
  "is_digit c = (c \<in> set ''0123456789'')"

definition digit_val :: "char \<Rightarrow> nat" where
  "digit_val c = of_char c - 48"

text \<open>The value of a run of decimal digits, most significant first.\<close>

definition digits_val :: "string \<Rightarrow> nat" where
  "digits_val ds = foldl (\<lambda>acc c. 10 * acc + digit_val c) 0 ds"

text \<open>The white space \<^verbatim>\<open>parseFloat\<close>, \<^verbatim>\<open>parseInt\<close> and ToNumber trim (its ASCII part).\<close>

definition is_space :: "char \<Rightarrow> bool" where
  "is_space c = (of_char c \<in> {9, 10, 11, 12, 13, 32 :: nat})"

definition trimStart :: "string \<Rightarrow> string" where
  "trimStart s = dropWhile is_space s"

definition trim :: "string \<Rightarrow> string" where
  "trim s = rev (dropWhile is_space (rev (dropWhile is_space s)))"

text \<open>Decimal printing of an array index or a position (\<^verbatim>\<open>`${index + 1}`\<close>).\<close>

fun show_nat :: "nat \<Rightarrow> string" where
  "show_nat n =
     (if n < 10 then [''0123456789'' ! n]
      else show_nat (n div 10) @ [''0123456789'' ! (n mod 10)])"

text \<open>
  The longest prefix of a string that is a \<^verbatim>\<open>StrDecimalLiteral\<close> (sign, \<^verbatim>\<open>Infinity\<close> or
  digits with an optional fraction and an optional complete exponent), with its value and
  the rest of the string; \<open>None\<close> when no prefix is one.
\<close>

definition take_sign :: "string \<Rightarrow> bool \<times> string" where
  "take_sign s =
     (case s of
        c # cs \<Rightarrow> if c = CHR ''-'' then (True, cs) else if c = CHR ''+'' then (False, cs) else (False, s)
      | [] \<Rightarrow> (False, s))"

definition take_exponent :: "string \<Rightarrow> int \<times> string" where
  "take_exponent s =
     (case s of
        c # cs \<Rightarrow>
          if c = CHR ''e'' \<or> c = CHR ''E'' then
            (let (neg, r) = take_sign cs; ds = takeWhile is_digit r in
             if ds = [] then (0, s)
             else ((if neg then - int (digits_val ds) else int (digits_val ds)), dropWhile is_digit r))
          else (0, s)
      | [] \<Rightarrow> (0, s))"

definition pow10 :: "int \<Rightarrow> rat" where
  "pow10 e = (if 0 \<le> e then 10 ^ nat e else 1 / 10 ^ nat (- e))"

definition decimal_prefix :: "string \<Rightarrow> (jsnum \<times> string) option" where
  "decimal_prefix s =
     (let (neg, r) = take_sign s in
      if startsWith ''Infinity'' r then Some ((if neg then NegInfinity else Infinity), drop 8 r)
      else
        let ip = takeWhile is_digit r; r1 = dropWhile is_digit r;
            (fp, r2) = (case r1 of
                          c # cs \<Rightarrow> if c = CHR ''.'' then (takeWhile is_digit cs, dropWhile is_digit cs)
                                    else ([], r1)
                        | [] \<Rightarrow> ([], r1))
        in if ip = [] \<and> fp = [] then None
           else
             let (e, r3) = take_exponent r2;
                 m = of_nat (digits_val ip) + of_nat (digits_val fp) / 10 ^ length fp;
                 v = m * pow10 e
             in Some (Num (if neg then - v else v), r3))"

definition parseFloat_str :: "string \<Rightarrow> jsnum" where
  "parseFloat_str s = (case decimal_prefix (trimStart s) of None \<Rightarrow> NaN | Some (v, r) \<Rightarrow> v)"

text \<open>Digits of a radix up to 16, for \<^verbatim>\<open>parseInt\<close> and the \<^verbatim>\<open>0x\<close>, \<^verbatim>\<open>0o\<close>, \<^verbatim>\<open>0b\<close> literals.\<close>

definition radix_digit :: "nat \<Rightarrow> char \<Rightarrow> nat option" where
  "radix_digit radix c =
     (case map_of (zip ''0123456789abcdef'' [0 ..< 16]) (lower_char c) of
        None \<Rightarrow> None
      | Some d \<Rightarrow> if d < radix then Some d else None)"

definition radix_val :: "nat \<Rightarrow> string \<Rightarrow> nat" where
  "radix_val radix ds = foldl (\<lambda>acc c. radix * acc + the (radix_digit radix c)) 0 ds"

definition is_radix_digit :: "nat \<Rightarrow> char \<Rightarrow> bool" where
  "is_radix_digit radix c = (radix_digit radix c \<noteq> None)"

text \<open>\<^verbatim>\<open>parseInt(s)\<close> with no radix argument.\<close>

definition parseInt :: "string \<Rightarrow> jsnum" where
  "parseInt s =
     (let (neg, r) = take_sign (trimStart s);
          (radix, r1) = (if startsWith ''0x'' r \<or> startsWith ''0X'' r then (16, drop 2 r) else (10, r));
          ds = takeWhile (is_radix_digit radix) r1
      in if ds = [] then NaN
         else Num (if neg then - of_nat (radix_val radix ds) else of_nat (radix_val radix ds)))"

text \<open>ToNumber of a string (\<^verbatim>\<open>StringToNumber\<close>): the whole trimmed string must be a numeric literal.\<close>

definition nondecimal_literal :: "string \<Rightarrow> jsnum option" where
  "nondecimal_literal s =
     (let radix = (if startsWith ''0x'' s \<or> startsWith ''0X'' s then 16
                   else if startsWith ''0o'' s \<or> startsWith ''0O'' s then 8
                   else if startsWith ''0b'' s \<or> startsWith ''0B'' s then 2 else 0);
          ds = drop 2 s
      in if radix = 0 \<or> ds = [] \<or> \<not> list_all (is_radix_digit radix) ds then None
         else Some (Num (of_nat (radix_val radix ds))))"

definition StringToNumber :: "string \<Rightarrow> jsnum" where
  "StringToNumber s =
     (let t = trim s in
      if t = [] then Num 0
      else case nondecimal_literal t of
             Some v \<Rightarrow> v
           | None \<Rightarrow> (case decimal_prefix t of
                         Some (v, []) \<Rightarrow> v
                       | _ \<Rightarrow> NaN))"

subsection \<open>Values, truthiness and coercions\<close>

datatype jsval =
    JUndefined
  | JNull
  | JBool bool
  | JNum jsnum
  | JStr string
  | JArr "jsval list"
  | JObj "(string \<times> jsval) list"

text \<open>What a \<^verbatim>\<open>throw\<close> carries; \<open>Inl\<close> of a result is a thrown exception.\<close>

datatype js_error = Error string | SyntaxError | TypeError

abbreviation num :: "rat \<Rightarrow> jsval" where
  "num r \<equiv> JNum (Num r)"

fun truthy :: "jsval \<Rightarrow> bool" where
  "truthy JUndefined = False"
| "truthy JNull = False"
| "truthy (JBool b) = b"
| "truthy (JNum n) = (n \<noteq> NaN \<and> n \<noteq> Num 0)"
| "truthy (JStr s) = (s \<noteq> [])"
| "truthy (JArr xs) = True"
| "truthy (JObj kvs) = True"

text \<open>\<^verbatim>\<open>a || b\<close>, for operands whose evaluation has no effect.\<close>

definition js_or :: "jsval \<Rightarrow> jsval \<Rightarrow> jsval" where
  "js_or a b = (if truthy a then a else b)"

text \<open>
  \<^verbatim>\<open>v.k\<close> for a value that is neither \<^verbatim>\<open>null\<close> nor \<^verbatim>\<open>undefined\<close> and one of the
  property names the service reads (none of them is an index, \<^verbatim>\<open>length\<close> or a
  property of a prototype): an own property of an object, \<^verbatim>\<open>undefined\<close> otherwise.
  Reading a property of \<^verbatim>\<open>null\<close> or \<^verbatim>\<open>undefined\<close> throws a TypeError; the callers
  test \<open>nullish\<close> first.
\<close>

fun getProp :: "jsval \<Rightarrow> string \<Rightarrow> jsval" where
  "getProp (JObj kvs) k = (case map_of kvs k of Some v \<Rightarrow> v | None \<Rightarrow> JUndefined)"
| "getProp v k = JUndefined"

fun nullish :: "jsval \<Rightarrow> bool" where
  "nullish JUndefined = True"
| "nullish JNull = True"
| "nullish v = False"

text \<open>
  ToPrimitive (in ToString, ToNumber, template literals and \<^verbatim>\<open>parseFloat\<close>) calls the
  object's \<^verbatim>\<open>toString\<close>. An object read from JSON that has an own property of that name
  shadows the callable one with a value that is not callable, and the conversion throws a
  TypeError; an array converts its elements (\<^verbatim>\<open>join\<close>), \<^verbatim>\<open>null\<close> and \<^verbatim>\<open>undefined\<close>
  excepted.
\<close>

fun coercion_throws :: "jsval \<Rightarrow> bool" where
  "coercion_throws (JObj kvs) = (map_of kvs ''toString'' \<noteq> None)"
| "coercion_throws (JArr xs) = list_ex coercion_throws xs"
| "coercion_throws v = False"

text \<open>A value whose string is never a number: \<^verbatim>\<open>"true"\<close>, \<^verbatim>\<open>"false"\<close>, \<^verbatim>\<open>"[object Object]"\<close>.\<close>

fun prints_no_number :: "jsval \<Rightarrow> bool" where
  "prints_no_number (JBool b) = True"
| "prints_no_number (JObj kvs) = True"
| "prints_no_number v = False"

text \<open>
  ToNumber of a value whose conversion does not throw. An array is converted through its
  string: empty for no element, the element's string for one element (empty for
  \<^verbatim>\<open>null\<close>), and a string with a comma, which is no number, from two elements on.
  A number printed and read again is the same number.
\<close>

fun ToNumber :: "jsval \<Rightarrow> jsnum" where
  "ToNumber JUndefined = NaN"
| "ToNumber JNull = Num 0"
| "ToNumber (JBool b) = Num (if b then 1 else 0)"
| "ToNumber (JNum n) = n"
| "ToNumber (JStr s) = StringToNumber s"
| "ToNumber (JArr []) = Num 0"
| "ToNumber (JArr [x]) =
     (if nullish x then Num 0 else if prints_no_number x then NaN else ToNumber x)"
| "ToNumber (JArr (x # y # zs)) = NaN"
| "ToNumber (JObj kvs) = NaN"

definition toNumber :: "jsval \<Rightarrow> js_error + jsnum" where
  "toNumber v = (if coercion_throws v then Inl TypeError else Inr (ToNumber v))"

text \<open>\<^verbatim>\<open>a - b\<close> and \<^verbatim>\<open>a * b\<close>: the left operand is converted first.\<close>

definition js_sub :: "jsval \<Rightarrow> jsval \<Rightarrow> js_error + jsnum" where
  "js_sub a b =
     (case toNumber a of Inl e \<Rightarrow> Inl e
      | Inr x \<Rightarrow> (case toNumber b of Inl e \<Rightarrow> Inl e | Inr y \<Rightarrow> Inr (num_sub x y)))"

definition js_mul :: "jsval \<Rightarrow> jsval \<Rightarrow> js_error + jsnum" where
  "js_mul a b =
     (case toNumber a of Inl e \<Rightarrow> Inl e
      | Inr x \<Rightarrow> (case toNumber b of Inl e \<Rightarrow> Inl e | Inr y \<Rightarrow> Inr (num_mul x y)))"

text \<open>
  \<^verbatim>\<open>parseFloat(v)\<close> of a value whose conversion does not throw: the numeric prefix of
  its string. The string of an array starts with the string of its first element, and the
  comma that follows ends any numeric prefix.
\<close>

fun parseFloat_val :: "jsval \<Rightarrow> jsnum" where
  "parseFloat_val (JStr s) = parseFloat_str s"
| "parseFloat_val (JNum n) = n"
| "parseFloat_val (JArr []) = NaN"
| "parseFloat_val (JArr (x # xs)) =
     (if nullish x \<or> prints_no_number x then NaN else parseFloat_val x)"
| "parseFloat_val v = NaN"

definition parseFloat :: "jsval \<Rightarrow> js_error + jsnum" where
  "parseFloat v = (if coercion_throws v then Inl TypeError else Inr (parseFloat_val v))"

text \<open>
  The own properties \<^verbatim>\<open>{...item}\<close> copies: those of an object, the indexed elements of
  an array or of a string, none of any other value.
\<close>

fun spread :: "jsval \<Rightarrow> (string \<times> jsval) list" where
  "spread (JObj kvs) = kvs"
| "spread (JArr xs) = zip (map show_nat [0 ..< length xs]) xs"
| "spread (JStr s) = zip (map show_nat [0 ..< length s]) (map (\<lambda>c. JStr [c]) s)"
| "spread v = []"

text \<open>Writing a property of an object literal: in place when the name is there, last otherwise.\<close>

definition obj_set :: "string \<Rightarrow> jsval \<Rightarrow> (string \<times> jsval) list \<Rightarrow> (string \<times> jsval) list" where
  "obj_set k v kvs = AList.update k v kvs"

subsection \<open>The fence patterns of the response coercion\<close>

text \<open>
  \<^verbatim>\<open>text.match(/```json\n([\s\S]*?)\n```/)\<close> and \<^verbatim>\<open>text.match(/```\n([\s\S]*?)\n```/)\<close>:
  the regular expression is tried at every start position from the left; at a position
  where the opening marker stands, the lazy group takes the fewest characters after which
  the closing marker stands. The result is the group of the first match.
\<close>

fun lazy_until :: "string \<Rightarrow> string \<Rightarrow> string option" where
  "lazy_until closer [] = (if startsWith closer [] then Some [] else None)"
| "lazy_until closer (c # cs) =
     (if startsWith closer (c # cs) then Some []
      else map_option ((#) c) (lazy_until closer cs))"

definition match_here :: "string \<Rightarrow> string \<Rightarrow> string \<Rightarrow> string option" where
  "match_here opener closer s =
     (if startsWith opener s then lazy_until closer (drop (length opener) s) else None)"

fun regex_fence :: "string \<Rightarrow> string \<Rightarrow> string \<Rightarrow> string option" where
  "regex_fence opener closer [] = match_here opener closer []"
| "regex_fence opener closer (c # cs) =
     (case match_here opener closer (c # cs) of
        Some g \<Rightarrow> Some g
      | None \<Rightarrow> regex_fence opener closer cs)"

definition json_fence_open :: string where
  "json_fence_open = ''```json\<newline>''"

definition plain_fence_open :: string where
  "plain_fence_open = ''```\<newline>''"

definition fence_close :: string where
  "fence_close = ''\<newline>```''"

definition match_json_fence :: "string \<Rightarrow> string option" where
  "match_json_fence text = regex_fence json_fence_open fence_close text"

definition match_plain_fence :: "string \<Rightarrow> string option" where
  "match_plain_fence text = regex_fence plain_fence_open fence_close text"

text \<open>
  Lines 274-278 (and 146-150, 348-352, the same text):
  \<^verbatim>\<open>jsonMatch = m1 || m2 || [null, responseText]; jsonString = jsonMatch[1] || responseText\<close>.
  A match is an array, so it is truthy whatever its group; the group is a string, falsy
  when empty.
\<close>

definition jsonMatch_1 :: "string \<Rightarrow> string" where
  "jsonMatch_1 responseText =
     (case match_json_fence responseText of
        Some g \<Rightarrow> g
      | None \<Rightarrow> (case match_plain_fence responseText of
                   Some g \<Rightarrow> g
                 | None \<Rightarrow> responseText))"

definition extractJsonString :: "string \<Rightarrow> string" where
  "extractJsonString responseText =
     (if jsonMatch_1 responseText \<noteq> [] then jsonMatch_1 responseText else responseText)"

subsection \<open>\<^verbatim>\<open>JSON.parse\<close>\<close>

text \<open>
  The built-in parser, after the JSON grammar (ECMA-404): a lexer, then a parser that runs
  over the tokens with a stack of the containers that are open. A text that is not JSON
  throws a SyntaxError. A name that is repeated in an object keeps its first place and
  its last value. An escape \<^verbatim>\<open>\uXXXX\<close> yields the UTF-8 bytes of that code unit.
\<close>

datatype token =
    TLBracket | TRBracket | TLBrace | TRBrace | TComma | TColon
  | TString string | TNumber rat | TTrue | TFalse | TNull

definition is_json_space :: "char \<Rightarrow> bool" where
  "is_json_space c = (of_char c \<in> {9, 10, 13, 32 :: nat})"

definition utf8_encode :: "nat \<Rightarrow> string" where
  "utf8_encode cp =
     (if cp < 128 then [char_of cp]
      else if cp < 2048 then [char_of (192 + cp div 64), char_of (128 + cp mod 64)]
      else [char_of (224 + cp div 4096), char_of (128 + (cp div 64) mod 64),
            char_of (128 + cp mod 64)])"

text \<open>The character a two-character escape stands for (\<^verbatim>\<open>\"\<close>, \<^verbatim>\<open>\\\<close>, \<^verbatim>\<open>\/\<close>, \<^verbatim>\<open>\b\<close>, \<^verbatim>\<open>\f\<close>, \<^verbatim>\<open>\n\<close>, \<^verbatim>\<open>\r\<close>, \<^verbatim>\<open>\t\<close>).\<close>

definition unescape :: "char \<Rightarrow> char option" where
  "unescape e =
     map_of [(CHR 0x22, CHR 0x22), (CHR 0x5C, CHR 0x5C), (CHR ''/'', CHR ''/''),
             (CHR ''b'', CHR 0x08), (CHR ''f'', CHR 0x0C), (CHR ''n'', CHR 0x0A),
             (CHR ''r'', CHR 0x0D), (CHR ''t'', CHR 0x09)] e"

text \<open>The characters of a string literal after its opening quote, and what follows its closing quote.\<close>

fun lex_string :: "string \<Rightarrow> (string \<times> string) option" where
  "lex_string [] = None"
| "lex_string (c # cs) =
     (if c = CHR 0x22 then Some ([], cs)
      else if (of_char c :: nat) < 32 then None
      else if c = CHR 0x5C then
        (case cs of
           [] \<Rightarrow> None
         | e # es \<Rightarrow>
             if e = CHR ''u'' then
               (if length es < 4 \<or> \<not> list_all (is_radix_digit 16) (take 4 es) then None
                else map_option (\<lambda>(s, r). (utf8_encode (radix_val 16 (take 4 es)) @ s, r))
                       (lex_string (drop 4 es)))
             else
               (case unescape e of
                  None \<Rightarrow> None
                | Some ch \<Rightarrow> map_option (\<lambda>(s, r). (ch # s, r)) (lex_string es)))
      else map_option (\<lambda>(s, r). (c # s, r)) (lex_string cs))"

text \<open>
  A number literal at the head of a string: \<^verbatim>\<open>-? (0 | [1-9][0-9]*) (. [0-9]+)? ([eE] [+-]? [0-9]+)?\<close>,
  with its value and the rest. Each part gives its digits and what follows them.
\<close>

definition json_int :: "string \<Rightarrow> (string \<times> string) option" where
  "json_int r =
     (if startsWith ''0'' r then Some (''0'', drop 1 r)
      else if takeWhile is_digit r = [] then None
      else Some (takeWhile is_digit r, dropWhile is_digit r))"

definition json_frac :: "string \<Rightarrow> (string \<times> string) option" where
  "json_frac r =
     (case r of
        c # cs \<Rightarrow>
          if c = CHR ''.'' then
            (if takeWhile is_digit cs = [] then None
             else Some (takeWhile is_digit cs, dropWhile is_digit cs))
          else Some ([], r)
      | [] \<Rightarrow> Some ([], r))"

definition json_exp :: "string \<Rightarrow> (int \<times> string) option" where
  "json_exp r =
     (case r of
        c # cs \<Rightarrow>
          if c = CHR ''e'' \<or> c = CHR ''E'' then
            (let (eneg, r3) = take_sign cs; ds = takeWhile is_digit r3 in
             if ds = [] then None
             else Some ((if eneg then - int (digits_val ds) else int (digits_val ds)),
                        dropWhile is_digit r3))
          else Some (0, r)
      | [] \<Rightarrow> Some (0, r))"

definition json_number :: "string \<Rightarrow> (rat \<times> string) option" where
  "json_number s =
     (let (neg, r) = (case s of c # cs \<Rightarrow> if c = CHR ''-'' then (True, cs) else (False, s)
                      | [] \<Rightarrow> (False, s))
      in case json_int r of
           None \<Rightarrow> None
         | Some (ip, r1) \<Rightarrow>
             (case json_frac r1 of
                None \<Rightarrow> None
              | Some (fp, r2) \<Rightarrow>
                  (case json_exp r2 of
                     None \<Rightarrow> None
                   | Some (e, r3) \<Rightarrow>
                       (let m = of_nat (digits_val ip) + of_nat (digits_val fp) / 10 ^ length fp;
                            v = m * pow10 e
                        in Some ((if neg then - v else v), r3)))))"

lemma lex_string_shorter: "lex_string cs = Some (s, r) \<Longrightarrow> length r < Suc (length cs)"
proof (induction cs arbitrary: s r rule: lex_string.induct)
  case 1
  then show ?case by simp
next
  case (2 c cs)
  then show ?case
    by (fastforce split: if_splits list.splits option.splits)
qed

lemma take_sign_shorter: "take_sign s = (b, r) \<Longrightarrow> length r \<le> length s"
  by (auto simp: take_sign_def split: list.splits if_splits)

lemma json_int_shorter: "json_int r = Some (ip, r1) \<Longrightarrow> length r1 < length r"
proof (cases r)
  case Nil
  then show "json_int r = Some (ip, r1) \<Longrightarrow> length r1 < length r"
    by (simp add: json_int_def)
next
  case (Cons c cs)
  have "length (dropWhile is_digit cs) \<le> length cs"
    by (rule length_dropWhile_le)
  then show "json_int r = Some (ip, r1) \<Longrightarrow> length r1 < length r"
    using Cons by (auto simp: json_int_def split: if_splits)
qed

lemma json_frac_shorter: "json_frac r = Some (fp, r2) \<Longrightarrow> length r2 \<le> length r"
proof (cases r)
  case Nil
  then show "json_frac r = Some (fp, r2) \<Longrightarrow> length r2 \<le> length r"
    by (simp add: json_frac_def)
next
  case (Cons c cs)
  have "length (dropWhile is_digit cs) \<le> length cs"
    by (rule length_dropWhile_le)
  then show "json_frac r = Some (fp, r2) \<Longrightarrow> length r2 \<le> length r"
    using Cons by (auto simp: json_frac_def split: if_splits)
qed

lemma json_exp_shorter: "json_exp r = Some (e, r3) \<Longrightarrow> length r3 \<le> length r"
proof (cases r)
  case Nil
  then show "json_exp r = Some (e, r3) \<Longrightarrow> length r3 \<le> length r"
    by (simp add: json_exp_def)
next
  case (Cons c cs)
  obtain b t where t: "take_sign cs = (b, t)"
    by (cases "take_sign cs")
  have "length (dropWhile is_digit t) \<le> length t"
    by (rule length_dropWhile_le)
  moreover have "length t \<le> length cs"
    using t by (rule take_sign_shorter)
  ultimately show "json_exp r = Some (e, r3) \<Longrightarrow> length r3 \<le> length r"
    using Cons t by (auto simp: json_exp_def Let_def split: if_splits)
qed

lemma json_number_shorter:
  assumes "json_number (c # cs) = Some (v, r)"
  shows "length r < Suc (length cs)"
proof -
  define r0 where "r0 = (if c = CHR ''-'' then cs else c # cs)"
  have r0: "length r0 \<le> Suc (length cs)"
    by (simp add: r0_def)
  from assms obtain ip r1 fp r2 e where
    "json_int r0 = Some (ip, r1)" "json_frac r1 = Some (fp, r2)" "json_exp r2 = Some (e, r)"
    by (auto simp: json_number_def r0_def Let_def split: if_splits option.splits)
  then have "length r1 < length r0" "length r2 \<le> length r1" "length r \<le> length r2"
    by (auto dest: json_int_shorter json_frac_shorter json_exp_shorter)
  with r0 show ?thesis by simp
qed

text \<open>The lexer: white space is skipped, anything that starts no token is a syntax error.\<close>

function lex :: "string \<Rightarrow> token list option" where
  "lex [] = Some []"
| "lex (c # cs) =
     (if is_json_space c then lex cs
      else if c = CHR ''['' then map_option ((#) TLBracket) (lex cs)
      else if c = CHR '']'' then map_option ((#) TRBracket) (lex cs)
      else if c = CHR ''{'' then map_option ((#) TLBrace) (lex cs)
      else if c = CHR ''}'' then map_option ((#) TRBrace) (lex cs)
      else if c = CHR '','' then map_option ((#) TComma) (lex cs)
      else if c = CHR '':'' then map_option ((#) TColon) (lex cs)
      else if c = CHR 0x22 then
        (case lex_string cs of
           None \<Rightarrow> None
         | Some (s, r) \<Rightarrow> map_option ((#) (TString s)) (lex r))
      else if c = CHR ''-'' \<or> is_digit c then
        (case json_number (c # cs) of
           None \<Rightarrow> None
         | Some (v, r) \<Rightarrow> map_option ((#) (TNumber v)) (lex r))
      else if startsWith ''true'' (c # cs) then map_option ((#) TTrue) (lex (drop 3 cs))
      else if startsWith ''false'' (c # cs) then map_option ((#) TFalse) (lex (drop 4 cs))
      else if startsWith ''null'' (c # cs) then map_option ((#) TNull) (lex (drop 3 cs))
      else None)"
  by pat_completeness auto
termination
proof (relation "measure length")
  show "wf (measure length)" by simp
qed (simp_all, (metis lex_string_shorter), (metis json_number_shorter))

text \<open>
  The parser. \<open>FArr es\<close> is an open array with its elements so far; \<open>FObj ms k\<close> is an
  open object with its members so far and the name read last.
\<close>

datatype frame = FArr "jsval list" | FObj "(string \<times> jsval) list" string

datatype expect =
    XValue
  | XValueOrClose
  | XKeyOrClose
  | XKey
  | XColon
  | XAfter
  | XDone jsval

text \<open>A value is complete: it is the result, an element of the open array, or the member read last.\<close>

fun put_value :: "jsval \<Rightarrow> frame list \<Rightarrow> expect \<times> frame list" where
  "put_value v [] = (XDone v, [])"
| "put_value v (FArr es # st) = (XAfter, FArr (es @ [v]) # st)"
| "put_value v (FObj ms k # st) = (XAfter, FObj (AList.update k v ms) k # st)"

fun scalar_token :: "token \<Rightarrow> jsval option" where
  "scalar_token (TString s) = Some (JStr s)"
| "scalar_token (TNumber r) = Some (num r)"
| "scalar_token TTrue = Some (JBool True)"
| "scalar_token TFalse = Some (JBool False)"
| "scalar_token TNull = Some JNull"
| "scalar_token t = None"

fun close_array :: "frame list \<Rightarrow> (expect \<times> frame list) option" where
  "close_array (FArr es # st) = Some (put_value (JArr es) st)"
| "close_array st = None"

fun close_object :: "frame list \<Rightarrow> (expect \<times> frame list) option" where
  "close_object (FObj ms k # st) = Some (put_value (JObj ms) st)"
| "close_object st = None"

fun read_value :: "token \<Rightarrow> frame list \<Rightarrow> (expect \<times> frame list) option" where
  "read_value TLBracket st = Some (XValueOrClose, FArr [] # st)"
| "read_value TLBrace st = Some (XKeyOrClose, FObj [] [] # st)"
| "read_value t st = map_option (\<lambda>v. put_value v st) (scalar_token t)"

fun read_key :: "token \<Rightarrow> frame list \<Rightarrow> (expect \<times> frame list) option" where
  "read_key (TString k) (FObj ms k0 # st) = Some (XColon, FObj ms k # st)"
| "read_key t st = None"

fun parse_step :: "expect \<Rightarrow> frame list \<Rightarrow> token \<Rightarrow> (expect \<times> frame list) option" where
  "parse_step XValue st t = read_value t st"
| "parse_step XValueOrClose st t = (if t = TRBracket then close_array st else read_value t st)"
| "parse_step XKeyOrClose st t = (if t = TRBrace then close_object st else read_key t st)"
| "parse_step XKey st t = read_key t st"
| "parse_step XColon st t = (if t = TColon then Some (XValue, st) else None)"
| "parse_step XAfter st t =
     (if t = TComma then
        (case st of
           FArr es # st' \<Rightarrow> Some (XValue, st)
         | FObj ms k # st' \<Rightarrow> Some (XKey, st)
         | [] \<Rightarrow> None)
      else if t = TRBracket then close_array st
      else if t = TRBrace then close_object st
      else None)"
| "parse_step (XDone v) st t = None"

fun parse_tokens :: "expect \<Rightarrow> frame list \<Rightarrow> token list \<Rightarrow> jsval option" where
  "parse_tokens x st [] = (case x of XDone v \<Rightarrow> Some v | _ \<Rightarrow> None)"
| "parse_tokens x st (t # ts) =
     (case parse_step x st t of
        None \<Rightarrow> None
      | Some (x', st') \<Rightarrow> parse_tokens x' st' ts)"

definition JSON_parse :: "string \<Rightarrow> js_error + jsval" where
  "JSON_parse text =
     (case lex text of
        None \<Rightarrow> Inl SyntaxError
      | Some ts \<Rightarrow> (case parse_tokens XValue [] ts of
                     None \<Rightarrow> Inl SyntaxError
                   | Some v \<Rightarrow> Inr v))"

subsection \<open>The module: static table, cache, environment\<close>

text \<open>\<^verbatim>\<open>fallbackMSPRates\<close> (lines 19-91), as the object literals are written.\<close>

definition fallbackMSPRates :: "jsval list" where
  "fallbackMSPRates =
     [JObj [(''id'', JStr ''k1''), (''crop'', JStr ''Paddy''), (''variety'', JStr ''Common''),
            (''category'', JStr ''kharif''), (''year'', JStr ''2024-25''), (''rate'', num 2183),
            (''increase'', num 143), (''increasePercentage'', num 7)],
      JObj [(''id'', JStr ''k2''), (''crop'', JStr ''Paddy''), (''variety'', JStr ''Grade A''),
            (''category'', JStr ''kharif''), (''year'', JStr ''2024-25''), (''rate'', num 2203),
            (''increase'', num 143), (''increasePercentage'', num (69 / 10))],
      JObj [(''id'', JStr ''k3''), (''crop'', JStr ''Jowar''), (''variety'', JStr ''Hybrid''),
            (''category'', JStr ''kharif''), (''year'', JStr ''2024-25''), (''rate'', num 2970),
            (''increase'', num 115), (''increasePercentage'', num 4)],
      JObj [(''id'', JStr ''r1''), (''crop'', JStr ''Wheat''),
            (''category'', JStr ''rabi''), (''year'', JStr ''2024-25''), (''rate'', num 2275),
            (''increase'', num 150), (''increasePercentage'', num (71 / 10))],
      JObj [(''id'', JStr ''r2''), (''crop'', JStr ''Barley''),
            (''category'', JStr ''rabi''), (''year'', JStr ''2024-25''), (''rate'', num 1850),
            (''increase'', num 115), (''increasePercentage'', num (66 / 10))],
      JObj [(''id'', JStr ''o1''), (''crop'', JStr ''Sugarcane''),
            (''category'', JStr ''other''), (''year'', JStr ''2024-25''), (''rate'', num 315),
            (''increase'', num 10), (''increasePercentage'', num (33 / 10))],
      JObj [(''id'', JStr ''o2''), (''crop'', JStr ''Jute''),
            (''category'', JStr ''other''), (''year'', JStr ''2024-25''), (''rate'', num 5050),
            (''increase'', num 300), (''increasePercentage'', num (63 / 10))]]"

text \<open>
  The module's \<^verbatim>\<open>cache\<close> object (lines 103-107). \<^verbatim>\<open>mspRates\<close> is \<^verbatim>\<open>null\<close> (\<open>None\<close>) or
  an array; \<^verbatim>\<open>expiry\<close> is never written.
\<close>

record cache_t =
  mspRates :: "jsval list option"
  timestamp :: int

definition cache_expiry :: int where
  "cache_expiry = 3600000"

text \<open>
  The state a call can change: the cache, and how often the provider was called and the
  clock was read so far. The counters index the outcomes the environment holds ready, and
  let a theorem say that the provider was not called.
\<close>

record state =
  cache :: cache_t
  provider_calls :: nat
  clock_reads :: nat

text \<open>
  What the module does not decide: the configured key
  (\<^verbatim>\<open>import.meta.env.VITE_GOOGLE_AI_KEY\<close>), the outcome of the n-th call of the provider
  (\<^verbatim>\<open>model.generateContent(prompt)\<close> up to \<^verbatim>\<open>response.text()\<close>: the text, or what it
  throws), the clock at its n-th reading and the printing of a date.
\<close>

record world =
  VITE_GOOGLE_AI_KEY :: "string option"
  generateContent :: "nat \<Rightarrow> js_error + string"
  Date_now :: "nat \<Rightarrow> int"
  toISOString :: "int \<Rightarrow> string"

definition initial_state :: state where
  "initial_state = \<lparr>cache = \<lparr>mspRates = None, timestamp = 0\<rparr>, provider_calls = 0, clock_reads = 0\<rparr>"

text \<open>\<^verbatim>\<open>!import.meta.env.VITE_GOOGLE_AI_KEY\<close>: the key is undefined or the empty string.\<close>

definition no_key :: "world \<Rightarrow> bool" where
  "no_key w = (case VITE_GOOGLE_AI_KEY w of None \<Rightarrow> True | Some k \<Rightarrow> k = [])"

definition callProvider :: "world \<Rightarrow> state \<Rightarrow> (js_error + string) \<times> state" where
  "callProvider w s =
     (generateContent w (provider_calls s), s\<lparr>provider_calls := Suc (provider_calls s)\<rparr>)"

subsection \<open>The response coercion\<close>

text \<open>Lines 274-279: the selected string is parsed; \<^verbatim>\<open>JSON.parse\<close> may throw.\<close>

definition parseResponse :: "string \<Rightarrow> js_error + jsval" where
  "parseResponse responseText = JSON_parse (extractJsonString responseText)"

text \<open>Line 281: \<^verbatim>\<open>Array.isArray(data) && data.length > 0\<close>.\<close>

fun nonEmptyArray :: "jsval \<Rightarrow> jsval list option" where
  "nonEmptyArray (JArr (x # xs)) = Some (x # xs)"
| "nonEmptyArray v = None"

text \<open>
  The coercion as a whole (lines 273-297 up to the test of line 281): the array, or
  \<open>None\<close> when the block is left without one, the SyntaxError caught at line 295.
\<close>

definition coerceResponse :: "string \<Rightarrow> jsval list option" where
  "coerceResponse responseText =
     (case parseResponse responseText of
        Inl e \<Rightarrow> None
      | Inr data \<Rightarrow> nonEmptyArray data)"

text \<open>
  Lines 284-288 (and 155-159): \<^verbatim>\<open>data.map(item => ({...item, source, lastUpdated: new Date().toISOString()}))\<close>.
  Each item reads the clock once; \<open>n\<close> is the number of readings before the first.
\<close>

definition stamp_item :: "world \<Rightarrow> string \<Rightarrow> nat \<Rightarrow> jsval \<Rightarrow> jsval" where
  "stamp_item w src n item =
     JObj (obj_set ''lastUpdated'' (JStr (toISOString w (Date_now w n)))
            (obj_set ''source'' (JStr src) (spread item)))"

definition stamp_all :: "world \<Rightarrow> string \<Rightarrow> nat \<Rightarrow> jsval list \<Rightarrow> jsval list" where
  "stamp_all w src n items = map (\<lambda>(i, item). stamp_item w src i item) (enumerate n items)"

subsection \<open>\<^verbatim>\<open>getMSPRates\<close>\<close>

text \<open>
  Lines 243-300, the inner \<^verbatim>\<open>try\<close> block. \<open>Inl e\<close>: the block throws \<open>e\<close> (to the
  \<^verbatim>\<open>catch\<close> of line 298). \<open>Inr (Some data)\<close>: it returns \<open>data\<close> at line 293.
  \<open>Inr None\<close>: it ends without returning.
\<close>

definition fetchLive :: "world \<Rightarrow> state \<Rightarrow> (js_error + jsval list option) \<times> state" where
  "fetchLive w s =
     (if no_key w then (Inl (Error ''No Gemini API key found''), s)
      else
        (let s1 = s\<lparr>clock_reads := Suc (clock_reads s)\<rparr>;
             (r, s2) = callProvider w s1
         in case r of
              Inl e \<Rightarrow> (Inl e, s2)
            | Inr responseText \<Rightarrow>
                (case coerceResponse responseText of
                   None \<Rightarrow> (Inr None, s2)
                 | Some mspData \<Rightarrow>
                     (let enhancedData = stamp_all w ''Gemini AI generated'' (clock_reads s2) mspData;
                          n = clock_reads s2 + length mspData;
                          s3 = s2\<lparr>cache := \<lparr>mspRates = Some enhancedData, timestamp = Date_now w n\<rparr>,
                                  clock_reads := Suc n\<rparr>
                      in (Inr (Some enhancedData), s3)))))"

text \<open>Lines 222-303: the live attempt, then the static table (lines 298-303).\<close>

definition liveOrFallback :: "world \<Rightarrow> state \<Rightarrow> (js_error + jsval list) \<times> state" where
  "liveOrFallback w s =
     (case fetchLive w s of
        (Inr (Some data), s') \<Rightarrow> (Inr data, s')
      | (Inr None, s') \<Rightarrow> (Inr fallbackMSPRates, s')
      | (Inl e, s') \<Rightarrow> (Inr fallbackMSPRates, s'))"

text \<open>
  Line 217: \<^verbatim>\<open>cache.mspRates && (Date.now() - cache.timestamp) < cache.expiry\<close>; the
  clock is read only when there are cached records.
\<close>

definition getMSPRates_body :: "world \<Rightarrow> state \<Rightarrow> (js_error + jsval list) \<times> state" where
  "getMSPRates_body w s =
     (case mspRates (cache s) of
        None \<Rightarrow> liveOrFallback w s
      | Some cached \<Rightarrow>
          (let s0 = s\<lparr>clock_reads := Suc (clock_reads s)\<rparr> in
           if Date_now w (clock_reads s) - timestamp (cache s) < cache_expiry then (Inr cached, s0)
           else liveOrFallback w s0))"

text \<open>Lines 215-308: the outer \<^verbatim>\<open>try\<close> with its \<^verbatim>\<open>catch\<close> (lines 304-307).\<close>

definition getMSPRates :: "world \<Rightarrow> state \<Rightarrow> (js_error + jsval list) \<times> state" where
  "getMSPRates w s =
     (case getMSPRates_body w s of
        (Inl e, s') \<Rightarrow> (Inr fallbackMSPRates, s')
      | (Inr rates, s') \<Rightarrow> (Inr rates, s'))"

subsection \<open>\<^verbatim>\<open>getMSPRatesByCategory\<close>\<close>

text \<open>
  Line 312: \<^verbatim>\<open>allRates.filter(rate => rate.category === category)\<close>. The callback reads a
  property of every element in turn, which throws on \<^verbatim>\<open>null\<close> and \<^verbatim>\<open>undefined\<close>.
\<close>

fun filterByCategory :: "string \<Rightarrow> jsval list \<Rightarrow> js_error + jsval list" where
  "filterByCategory category [] = Inr []"
| "filterByCategory category (rate # rest) =
     (if nullish rate then Inl TypeError
      else case filterByCategory category rest of
             Inl e \<Rightarrow> Inl e
           | Inr kept \<Rightarrow>
               Inr (if getProp rate ''category'' = JStr category then rate # kept else kept))"

text \<open>Lines 310-313: no \<^verbatim>\<open>try\<close> here.\<close>

definition getMSPRatesByCategory :: "world \<Rightarrow> string \<Rightarrow> state \<Rightarrow> (js_error + jsval list) \<times> state" where
  "getMSPRatesByCategory w category s =
     (case getMSPRates w s of
        (Inl e, s') \<Rightarrow> (Inl e, s')
      | (Inr allRates, s') \<Rightarrow> (filterByCategory category allRates, s'))"

text \<open>Lines 387-391.\<close>

definition clearMSPCache :: "state \<Rightarrow> state" where
  "clearMSPCache s = s\<lparr>cache := \<lparr>mspRates = None, timestamp = 0\<rparr>\<rparr>"

subsection \<open>\<^verbatim>\<open>getMSPHistory\<close>\<close>

text \<open>Line 321: \<^verbatim>\<open>allRates.find(rate => rate.id === cropId)\<close>.\<close>

fun findById :: "string \<Rightarrow> jsval list \<Rightarrow> js_error + jsval option" where
  "findById cropId [] = Inr None"
| "findById cropId (rate # rest) =
     (if nullish rate then Inl TypeError
      else if getProp rate ''id'' = JStr cropId then Inr (Some rate)
      else findById cropId rest)"

text \<open>
  Lines 329-341: the template literal converts \<^verbatim>\<open>crop.crop\<close>, \<^verbatim>\<open>crop.variety\<close> (when
  truthy), \<^verbatim>\<open>crop.year\<close> and \<^verbatim>\<open>crop.rate\<close> to strings, which can throw. The text of
  the prompt has no other effect.
\<close>

definition prompt_throws :: "jsval \<Rightarrow> bool" where
  "prompt_throws crop =
     (coercion_throws (getProp crop ''crop'')
      \<or> (truthy (getProp crop ''variety'') \<and> coercion_throws (getProp crop ''variety''))
      \<or> coercion_throws (getProp crop ''year'')
      \<or> coercion_throws (getProp crop ''rate''))"

text \<open>
  Lines 358-359: \<^verbatim>\<open>parseInt(a.year.split('-')[0])\<close>. It throws a TypeError unless
  \<^verbatim>\<open>a.year\<close> is a string.
\<close>

definition yearOf :: "jsval \<Rightarrow> js_error + jsnum" where
  "yearOf a =
     (if nullish a then Inl TypeError
      else case getProp a ''year'' of
             JStr y \<Rightarrow> Inr (parseInt (takeWhile (\<lambda>c. c \<noteq> CHR ''-'') y))
           | _ \<Rightarrow> Inl TypeError)"

fun yearKeys :: "jsval list \<Rightarrow> js_error + (jsnum \<times> jsval) list" where
  "yearKeys [] = Inr []"
| "yearKeys (a # as) =
     (case yearOf a of
        Inl e \<Rightarrow> Inl e
      | Inr k \<Rightarrow> (case yearKeys as of Inl e \<Rightarrow> Inl e | Inr ks \<Rightarrow> Inr ((k, a) # ks)))"

text \<open>
  Lines 357-361: \<^verbatim>\<open>historicalData.sort((a, b) => yearB - yearA)\<close>. The sort is stable: an
  element moves in front of an earlier one only when the comparator is positive for the
  pair, that is when its year is greater; a comparator that is \<^verbatim>\<open>NaN\<close> counts as zero.
  With one element the comparator is not called; from two elements on every element is
  compared, so one bad element makes the sort throw. (Where years are \<^verbatim>\<open>NaN\<close> the
  comparator is not consistent and the order an engine produces is its own; the model
  inserts from the left.)
\<close>

fun insertByYear :: "jsnum \<times> jsval \<Rightarrow> (jsnum \<times> jsval) list \<Rightarrow> (jsnum \<times> jsval) list" where
  "insertByYear x [] = [x]"
| "insertByYear x (y # ys) =
     (if num_gt (fst x) (fst y) then x # y # ys else y # insertByYear x ys)"

definition sortByYear :: "jsval list \<Rightarrow> js_error + jsval list" where
  "sortByYear historicalData =
     (if length historicalData \<le> 1 then Inr historicalData
      else case yearKeys historicalData of
             Inl e \<Rightarrow> Inl e
           | Inr ks \<Rightarrow> Inr (map snd (foldl (\<lambda>acc x. insertByYear x acc) [] ks)))"

text \<open>
  Lines 324-368, the inner \<^verbatim>\<open>try\<close> block, with the results of \<open>fetchLive\<close>. The errors
  of the coercion and of the sort are caught at line 363.
\<close>

definition fetchHistory :: "world \<Rightarrow> jsval \<Rightarrow> state \<Rightarrow> (js_error + jsval list option) \<times> state" where
  "fetchHistory w crop s =
     (if no_key w then (Inl (Error ''No Gemini API key found''), s)
      else if prompt_throws crop then (Inl TypeError, s)
      else
        (let (r, s1) = callProvider w s
         in case r of
              Inl e \<Rightarrow> (Inl e, s1)
            | Inr responseText \<Rightarrow>
                (case coerceResponse responseText of
                   None \<Rightarrow> (Inr None, s1)
                 | Some historicalData \<Rightarrow>
                     (case sortByYear historicalData of
                        Inl e \<Rightarrow> (Inr None, s1)
                      | Inr sortedData \<Rightarrow> (Inr (Some sortedData), s1)))))"

text \<open>
  Lines 370-379. \<^verbatim>\<open>crop.increase || currentRate * 0.05\<close> is the increase when it is
  truthy, five percent of the rate otherwise; the arithmetic converts its operands and can
  throw (to the \<^verbatim>\<open>catch\<close> of line 380).
\<close>

definition assumedIncrease :: "jsval \<Rightarrow> js_error + jsval" where
  "assumedIncrease crop =
     (if truthy (getProp crop ''increase'') then Inr (getProp crop ''increase'')
      else case js_mul (getProp crop ''rate'') (num (5 / 100)) of
             Inl e \<Rightarrow> Inl e
           | Inr p \<Rightarrow> Inr (JNum p))"

text \<open>Line 375: \<^verbatim>\<open>currentRate - (crop.increase || currentRate * 0.05)\<close>.\<close>

definition oneYearBack :: "jsval \<Rightarrow> js_error + jsnum" where
  "oneYearBack crop =
     (case assumedIncrease crop of
        Inl e \<Rightarrow> Inl e
      | Inr d \<Rightarrow> js_sub (getProp crop ''rate'') d)"

text \<open>Lines 376-378: \<^verbatim>\<open>currentRate - (crop.increase || currentRate * 0.05) * m\<close>.\<close>

definition yearsBack :: "jsval \<Rightarrow> rat \<Rightarrow> js_error + jsnum" where
  "yearsBack crop m =
     (case assumedIncrease crop of
        Inl e \<Rightarrow> Inl e
      | Inr d \<Rightarrow> (case js_mul d (num m) of
                    Inl e \<Rightarrow> Inl e
                  | Inr p \<Rightarrow> js_sub (getProp crop ''rate'') (JNum p)))"

definition historyPoint :: "jsval \<Rightarrow> jsval \<Rightarrow> jsval" where
  "historyPoint y r = JObj [(''year'', y), (''rate'', r)]"

definition syntheticHistory :: "jsval \<Rightarrow> js_error + jsval list" where
  "syntheticHistory crop =
     (let currentRate = getProp crop ''rate''; currentYear = getProp crop ''year'' in
      case oneYearBack crop of
        Inl e \<Rightarrow> Inl e
      | Inr r1 \<Rightarrow>
          (case yearsBack crop (18 / 10) of
             Inl e \<Rightarrow> Inl e
           | Inr r2 \<Rightarrow>
               (case yearsBack crop (25 / 10) of
                  Inl e \<Rightarrow> Inl e
                | Inr r3 \<Rightarrow>
                    (case yearsBack crop (32 / 10) of
                       Inl e \<Rightarrow> Inl e
                     | Inr r4 \<Rightarrow>
                         Inr [historyPoint currentYear currentRate,
                              historyPoint (JStr ''2023-24'') (JNum r1),
                              historyPoint (JStr ''2022-23'') (JNum r2),
                              historyPoint (JStr ''2021-22'') (JNum r3),
                              historyPoint (JStr ''2020-21'') (JNum r4)]))))"

text \<open>Lines 320-379, the outer \<^verbatim>\<open>try\<close> block; \<open>Inl e\<close> is thrown to line 380.\<close>

definition getMSPHistory_body :: "world \<Rightarrow> string \<Rightarrow> state \<Rightarrow> (js_error + jsval list) \<times> state" where
  "getMSPHistory_body w cropId s =
     (case getMSPRates w s of
        (Inl e, s1) \<Rightarrow> (Inl e, s1)
      | (Inr allRates, s1) \<Rightarrow>
          (case findById cropId allRates of
             Inl e \<Rightarrow> (Inl e, s1)
           | Inr None \<Rightarrow> (Inr [], s1)
           | Inr (Some crop) \<Rightarrow>
               if \<not> truthy crop then (Inr [], s1)
               else
                 (case fetchHistory w crop s1 of
                    (Inr (Some sortedData), s2) \<Rightarrow> (Inr sortedData, s2)
                  | (Inr None, s2) \<Rightarrow> (syntheticHistory crop, s2)
                  | (Inl e, s2) \<Rightarrow> (syntheticHistory crop, s2))))"

text \<open>Lines 318-384: the outer \<^verbatim>\<open>catch\<close> returns the empty array.\<close>

definition getMSPHistory :: "world \<Rightarrow> string \<Rightarrow> state \<Rightarrow> (js_error + jsval list) \<times> state" where
  "getMSPHistory w cropId s =
     (case getMSPHistory_body w cropId s of
        (Inl e, s') \<Rightarrow> (Inr [], s')
      | (Inr points, s') \<Rightarrow> (Inr points, s'))"

subsection \<open>\<^verbatim>\<open>transformDataToMSPRates\<close> and \<^verbatim>\<open>processWithGemini\<close>\<close>

definition kharif_keywords :: "string list" where
  "kharif_keywords = [''paddy'', ''jowar'', ''bajra'', ''maize'', ''ragi'', ''arhar'', ''moong'',
                      ''urad'', ''cotton'', ''groundnut'', ''soybean'']"

definition rabi_keywords :: "string list" where
  "rabi_keywords = [''wheat'', ''barley'', ''gram'', ''masur'', ''mustard'', ''safflower'', ''lentil'']"

text \<open>Lines 178-185.\<close>

definition categoryOf :: "string \<Rightarrow> string" where
  "categoryOf crop =
     (let cropLower = toLowerCase crop in
      if list_ex (\<lambda>c. includes_str c cropLower) kharif_keywords then ''kharif''
      else if list_ex (\<lambda>c. includes_str c cropLower) rabi_keywords then ''rabi''
      else ''other'')"

text \<open>Line 192: \<^verbatim>\<open>parseFloat(record.msp_price || record.rate || record.msp || 0)\<close>.\<close>

definition rateOf :: "jsval \<Rightarrow> js_error + jsnum" where
  "rateOf record =
     parseFloat (js_or (getProp record ''msp_price'')
                   (js_or (getProp record ''rate'') (js_or (getProp record ''msp'') (num 0))))"

text \<open>Line 193.\<close>

definition previousRateOf :: "jsval \<Rightarrow> js_error + jsnum" where
  "previousRateOf record =
     parseFloat (js_or (getProp record ''previous_price'')
                   (js_or (getProp record ''previous_rate'')
                      (js_or (getProp record ''previous_msp'') (num 0))))"

text \<open>Lines 194-195; \<^verbatim>\<open>undefined\<close> when the previous rate is not positive.\<close>

definition increaseOf :: "jsnum \<Rightarrow> jsnum \<Rightarrow> jsval" where
  "increaseOf rate previousRate =
     (if num_gt previousRate (Num 0) then JNum (num_sub rate previousRate) else JUndefined)"

definition increasePercentageOf :: "jsnum \<Rightarrow> jsnum \<Rightarrow> jsval" where
  "increasePercentageOf rate previousRate =
     (if num_gt previousRate (Num 0)
      then JNum (parseFloat_toFixed1
                   (num_mul (num_div (num_sub rate previousRate) previousRate) (Num 100)))
      else JUndefined)"

text \<open>
  The callback of line 176 for the record at position \<open>index\<close>; \<open>n\<close> is the number of
  clock readings so far. The first property read throws on \<^verbatim>\<open>null\<close> and
  \<^verbatim>\<open>undefined\<close>; \<^verbatim>\<open>crop.toLowerCase()\<close> throws unless the crop is a string.
\<close>

definition transformRecord :: "world \<Rightarrow> nat \<Rightarrow> nat \<Rightarrow> jsval \<Rightarrow> js_error + jsval" where
  "transformRecord w n index record =
     (if nullish record then Inl TypeError
      else
        case js_or (getProp record ''commodity_name'')
               (js_or (getProp record ''crop_name'') (js_or (getProp record ''crop'') (JStr []))) of
          JStr crop \<Rightarrow>
            (let category = categoryOf crop;
                 variety = (if truthy (js_or (getProp record ''variety'') (getProp record ''grade''))
                            then js_or (getProp record ''variety'') (getProp record ''grade'')
                            else JUndefined)
             in case rateOf record of
                  Inl e \<Rightarrow> Inl e
                | Inr rate \<Rightarrow>
                    (case previousRateOf record of
                       Inl e \<Rightarrow> Inl e
                     | Inr previousRate \<Rightarrow>
                         Inr (JObj
                           [(''id'', js_or (getProp record ''id'')
                                       (JStr (take 1 category @ show_nat (index + 1)))),
                            (''crop'', JStr crop),
                            (''variety'', variety),
                            (''category'', JStr category),
                            (''year'', js_or (getProp record ''year'')
                                         (js_or (getProp record ''msp_year'') (JStr ''2024-25''))),
                            (''rate'', JNum rate),
                            (''increase'', increaseOf rate previousRate),
                            (''increasePercentage'', increasePercentageOf rate previousRate),
                            (''source'', JStr ''API data''),
                            (''lastUpdated'', JStr (toISOString w (Date_now w n)))])))
        | _ \<Rightarrow> Inl TypeError)"

text \<open>\<^verbatim>\<open>records.map(...)\<close> from position \<open>index\<close> on; a callback that throws ends the map.\<close>

fun transformFrom :: "world \<Rightarrow> nat \<Rightarrow> jsval list \<Rightarrow> state \<Rightarrow> (js_error + jsval list) \<times> state" where
  "transformFrom w index [] s = (Inr [], s)"
| "transformFrom w index (record # records) s =
     (case transformRecord w (clock_reads s) index record of
        Inl e \<Rightarrow> (Inl e, s)
      | Inr rate \<Rightarrow>
          (case transformFrom w (Suc index) records (s\<lparr>clock_reads := Suc (clock_reads s)\<rparr>) of
             (Inl e, s') \<Rightarrow> (Inl e, s')
           | (Inr rates, s') \<Rightarrow> (Inr (rate # rates), s')))"

definition transformDataToMSPRates :: "world \<Rightarrow> jsval list \<Rightarrow> state \<Rightarrow> (js_error + jsval list) \<times> state" where
  "transformDataToMSPRates w records s = transformFrom w 0 records s"

text \<open>Lines 115-165, the \<^verbatim>\<open>try\<close> block of \<^verbatim>\<open>processWithGemini\<close>.\<close>

definition processWithGemini_body :: "world \<Rightarrow> jsval list \<Rightarrow> state \<Rightarrow> (js_error + jsval list) \<times> state" where
  "processWithGemini_body w rawData s =
     (if no_key w then transformDataToMSPRates w rawData s
      else
        (let (r, s1) = callProvider w s
         in case r of
              Inl e \<Rightarrow> (Inl e, s1)
            | Inr responseText \<Rightarrow>
                (case coerceResponse responseText of
                   None \<Rightarrow> transformDataToMSPRates w rawData s1
                 | Some processedData \<Rightarrow>
                     (Inr (stamp_all w ''Gemini AI processed'' (clock_reads s1) processedData),
                      s1\<lparr>clock_reads := clock_reads s1 + length processedData\<rparr>))))"

text \<open>Lines 114-170: the \<^verbatim>\<open>catch\<close> (lines 166-169) transforms the raw data itself, outside any \<^verbatim>\<open>try\<close>.\<close>

definition processWithGemini :: "world \<Rightarrow> jsval list \<Rightarrow> state \<Rightarrow> (js_error + jsval list) \<times> state" where
  "processWithGemini w rawData s =
     (case processWithGemini_body w rawData s of
        (Inl e, s') \<Rightarrow> transformDataToMSPRates w rawData s'
      | (Inr rates, s') \<Rightarrow> (Inr rates, s'))"

section \<open>Notions of the specification\<close>

text \<open>
  The cache serves its records while their age is below the freshness window of one hour
  (section 4.1 of the specification).
\<close>

definition cache_fresh :: "world \<Rightarrow> state \<Rightarrow> bool" where
  "cache_fresh w s =
     (case mspRates (cache s) of
        None \<Rightarrow> False
      | Some cached \<Rightarrow> Date_now w (clock_reads s) - timestamp (cache s) < 3600000)"

text \<open>
  What the live tier obtains for a call made in state \<open>s\<close>: nothing when no credential
  is configured, when the provider throws or when its text does not coerce to a non-empty
  array; the coerced array otherwise.
\<close>

definition provider_yield :: "world \<Rightarrow> state \<Rightarrow> jsval list option" where
  "provider_yield w s =
     (if no_key w then None
      else case generateContent w (provider_calls s) of
             Inl e \<Rightarrow> None
           | Inr responseText \<Rightarrow> coerceResponse responseText)"

text \<open>The state after the test of line 217, which reads the clock when there are records.\<close>

definition after_cache_check :: "state \<Rightarrow> state" where
  "after_cache_check s =
     (case mspRates (cache s) of None \<Rightarrow> s | Some cached \<Rightarrow> s\<lparr>clock_reads := Suc (clock_reads s)\<rparr>)"

text \<open>
  The cache is private to the module: it starts empty and only \<^verbatim>\<open>getMSPRates\<close> and
  \<^verbatim>\<open>clearMSPCache\<close> write it. What \<^verbatim>\<open>getMSPRates\<close> writes went through the spread of
  lines 284-288, so every cached element is an object, whatever the provider sent. The
  states the module can reach are those the public operations produce from the state at
  load time; callers are taken not to mutate the arrays they are handed.
\<close>

fun is_object :: "jsval \<Rightarrow> bool" where
  "is_object (JObj kvs) = True"
| "is_object v = False"

definition cache_wf :: "state \<Rightarrow> bool" where
  "cache_wf s = (case mspRates (cache s) of None \<Rightarrow> True | Some cached \<Rightarrow> list_all is_object cached)"

inductive reachable :: "world \<Rightarrow> state \<Rightarrow> bool" for w :: world where
  module_loaded: "reachable w initial_state"
| after_getMSPRates: "reachable w s \<Longrightarrow> reachable w (snd (getMSPRates w s))"
| after_getMSPRatesByCategory: "reachable w s \<Longrightarrow> reachable w (snd (getMSPRatesByCategory w category s))"
| after_getMSPHistory: "reachable w s \<Longrightarrow> reachable w (snd (getMSPHistory w cropId s))"
| after_clearMSPCache: "reachable w s \<Longrightarrow> reachable w (clearMSPCache s)"

text \<open>What the provider-driven fetch of a history obtains; \<open>None\<close>: the provider path fails.\<close>

definition history_yield :: "world \<Rightarrow> jsval \<Rightarrow> state \<Rightarrow> jsval list option" where
  "history_yield w crop s =
     (case fst (fetchHistory w crop s) of
        Inl e \<Rightarrow> None
      | Inr None \<Rightarrow> None
      | Inr (Some sortedData) \<Rightarrow> Some sortedData)"

text \<open>
  The group of the first match, said without the search: the text is some prefix, the
  opening marker, the group, the closing marker and a rest; no block starts further to
  the left; and of the blocks that start there, this one has the shortest interior.
\<close>

definition first_block :: "string \<Rightarrow> string \<Rightarrow> string \<Rightarrow> string \<Rightarrow> bool" where
  "first_block opener closer text g \<longleftrightarrow>
     (\<exists>pre post. text = pre @ opener @ g @ closer @ post
        \<and> (\<forall>pre' g' post'. text = pre' @ opener @ g' @ closer @ post' \<longrightarrow>
              length pre < length pre' \<or> (length pre = length pre' \<and> length g \<le> length g')))"

text \<open>The character of the fence markers.\<close>

definition backquote :: char where
  "backquote = CHR 0x60"

text \<open>
  The algorithm of section 4.2 of the specification, in its words: the interior of a block
  tagged as JSON, else of an untagged block, else the full text; the parse of that string;
  success only for a non-empty array.
\<close>

definition specified_selection :: "string \<Rightarrow> string" where
  "specified_selection t =
     (case match_json_fence t of
        Some interior \<Rightarrow> interior
      | None \<Rightarrow> (case match_plain_fence t of Some interior \<Rightarrow> interior | None \<Rightarrow> t))"

definition specified_coercion :: "string \<Rightarrow> jsval list option" where
  "specified_coercion t =
     (case JSON_parse (specified_selection t) of
        Inl e \<Rightarrow> None
      | Inr (JArr (x # xs)) \<Rightarrow> Some (x # xs)
      | Inr other \<Rightarrow> None)"

text \<open>The block the patterns select has an empty interior.\<close>

definition empty_block_selected :: "string \<Rightarrow> bool" where
  "empty_block_selected t \<longleftrightarrow>
     first_block json_fence_open fence_close t []
     \<or> ((\<forall>h. \<not> first_block json_fence_open fence_close t h)
         \<and> first_block plain_fence_open fence_close t [])"

text \<open>The coercion of the whole text, as when no fence is present.\<close>

definition coerceWholeText :: "string \<Rightarrow> jsval list option" where
  "coerceWholeText t = (case JSON_parse t of Inl e \<Rightarrow> None | Inr data \<Rightarrow> nonEmptyArray data)"

text \<open>The candidates of line 192 and of line 193, in the order the code tries them.\<close>

definition rate_candidates :: "jsval \<Rightarrow> jsval list" where
  "rate_candidates record = [getProp record ''msp_price'', getProp record ''rate'', getProp record ''msp'']"

definition previous_candidates :: "jsval \<Rightarrow> jsval list" where
  "previous_candidates record =
     [getProp record ''previous_price'', getProp record ''previous_rate'', getProp record ''previous_msp'']"

text \<open>Line 177: the crop name the callback works with.\<close>

definition cropValueOf :: "jsval \<Rightarrow> jsval" where
  "cropValueOf record =
     js_or (getProp record ''commodity_name'')
       (js_or (getProp record ''crop_name'') (js_or (getProp record ''crop'') (JStr [])))"

fun is_string :: "jsval \<Rightarrow> bool" where
  "is_string (JStr s) = True"
| "is_string v = False"

text \<open>The value \<^verbatim>\<open>parseFloat\<close> is given at line 192 and at line 193.\<close>

definition rate_argument :: "jsval \<Rightarrow> jsval" where
  "rate_argument record = (case find truthy (rate_candidates record) of None \<Rightarrow> num 0 | Some v \<Rightarrow> v)"

definition previous_argument :: "jsval \<Rightarrow> jsval" where
  "previous_argument record =
     (case find truthy (previous_candidates record) of None \<Rightarrow> num 0 | Some v \<Rightarrow> v)"

text \<open>
  The records the normalizer accepts: not \<^verbatim>\<open>null\<close>, a crop name that is a string (or
  no crop name), and rate values whose conversion to a string does not throw. On any other
  record the callback throws a TypeError.
\<close>

definition accepted :: "jsval \<Rightarrow> bool" where
  "accepted record \<longleftrightarrow>
     \<not> nullish record \<and> is_string (cropValueOf record)
     \<and> \<not> coercion_throws (rate_argument record) \<and> \<not> coercion_throws (previous_argument record)"

text \<open>
  A record from a flat JSON table, whose fields are strings, numbers, booleans or null
  and whose crop name, if any, is a string, is accepted.
\<close>

fun is_scalar :: "jsval \<Rightarrow> bool" where
  "is_scalar (JArr xs) = False"
| "is_scalar (JObj kvs) = False"
| "is_scalar v = True"

section \<open>Environments and data for the examples\<close>

text \<open>
  No credential; a credential and a provider that throws; a credential and a provider
  that answers with a given text. The clock advances by a second at each reading.
\<close>

definition world_no_key :: world where
  "world_no_key =
     \<lparr>VITE_GOOGLE_AI_KEY = None, generateContent = (\<lambda>n. Inl (Error ''not configured'')),
      Date_now = (\<lambda>n. 1000 * int n), toISOString = (\<lambda>t. ''2024-06-01T00:00:00.000Z'')\<rparr>"

definition world_offline :: world where
  "world_offline =
     \<lparr>VITE_GOOGLE_AI_KEY = Some ''key'', generateContent = (\<lambda>n. Inl (Error ''fetch failed'')),
      Date_now = (\<lambda>n. 1000 * int n), toISOString = (\<lambda>t. ''2024-06-01T00:00:00.000Z'')\<rparr>"

definition world_answering :: "string \<Rightarrow> world" where
  "world_answering responseText =
     \<lparr>VITE_GOOGLE_AI_KEY = Some ''key'', generateContent = (\<lambda>n. Inr responseText),
      Date_now = (\<lambda>n. 1000 * int n), toISOString = (\<lambda>t. ''2024-06-01T00:00:00.000Z'')\<rparr>"

definition state_cached :: "jsval list \<Rightarrow> int \<Rightarrow> state" where
  "state_cached rates t = \<lparr>cache = \<lparr>mspRates = Some rates, timestamp = t\<rparr>, provider_calls = 1, clock_reads = 3\<rparr>"

text \<open>A cached record set for the examples.\<close>

definition one_record :: "jsval list" where
  "one_record = [JObj [(''id'', JStr ''x1''), (''category'', JStr ''rabi''), (''rate'', num 100), (''increase'', num 0)]]"

text \<open>A provider answer for the examples: a fenced array of one record.\<close>

definition one_object_text :: string where
  \<open>one_object_text = ''```json\<newline>[{"id":"x1","category":"rabi","rate":100}]\<newline>```''\<close>

text \<open>Texts for the examples: a fenced block with an empty interior, the fenced and the bare array of the specification.\<close>

definition empty_fence_text :: string where
  "empty_fence_text = ''```json\<newline>\<newline>```''"

definition fenced_example :: string where
  \<open>fenced_example = ''```json\<newline>[{"a":1}]\<newline>```''\<close>

definition bare_example :: string where
  \<open>bare_example = ''[{"a":1}]''\<close>

text \<open>An untagged block between prose, for the second pattern.\<close>

definition plain_fenced_example :: string where
  \<open>plain_fenced_example = ''Here you go:\<newline>```\<newline>[{"a":1}]\<newline>```\<newline>''\<close>







section \<open>Lemmas\<close>

lemmas fence_defs = match_json_fence_def match_plain_fence_def match_here_def fence_close_def
  json_fence_open_def plain_fence_open_def

lemmas json_defs = JSON_parse_def is_json_space_def is_digit_def json_number_def json_int_def
  json_frac_def json_exp_def digits_val_def digit_val_def pow10_def


subsection \<open>The tiers of \<^verbatim>\<open>getMSPRates\<close>\<close>

lemma fetchLive_no_key: "no_key w \<Longrightarrow> fetchLive w s = (Inl (Error ''No Gemini API key found''), s)"
  by (simp add: fetchLive_def)

lemma fetchLive_failure:
  assumes "provider_yield w s = None"
  shows "fst (fetchLive w s) \<noteq> Inr (Some d)"
    and "cache (snd (fetchLive w s)) = cache s"
    and "provider_calls (snd (fetchLive w s)) = (if no_key w then provider_calls s else Suc (provider_calls s))"
  using assms
  by (auto simp: fetchLive_def provider_yield_def callProvider_def Let_def split: if_splits sum.splits option.splits)

lemma fetchLive_success:
  assumes "provider_yield w s = Some items"
  shows "fetchLive w s =
           (Inr (Some (stamp_all w ''Gemini AI generated'' (Suc (clock_reads s)) items)),
            s\<lparr>provider_calls := Suc (provider_calls s),
              cache := \<lparr>mspRates = Some (stamp_all w ''Gemini AI generated'' (Suc (clock_reads s)) items),
                         timestamp = Date_now w (Suc (clock_reads s) + length items)\<rparr>,
              clock_reads := Suc (Suc (clock_reads s) + length items)\<rparr>)"
  using assms
  by (auto simp: fetchLive_def provider_yield_def callProvider_def Let_def split: if_splits sum.splits option.splits)

lemma liveOrFallback_failure:
  assumes "provider_yield w s = None"
  shows "fst (liveOrFallback w s) = Inr fallbackMSPRates"
    and "cache (snd (liveOrFallback w s)) = cache s"
    and "provider_calls (snd (liveOrFallback w s)) = (if no_key w then provider_calls s else Suc (provider_calls s))"
proof -
  obtain r s' where f: "fetchLive w s = (r, s')" by (cases "fetchLive w s")
  from fetchLive_failure[OF assms] f have "\<And>d. r \<noteq> Inr (Some d)" "cache s' = cache s"
    "provider_calls s' = (if no_key w then provider_calls s else Suc (provider_calls s))"
    by auto
  then show "fst (liveOrFallback w s) = Inr fallbackMSPRates"
    and "cache (snd (liveOrFallback w s)) = cache s"
    and "provider_calls (snd (liveOrFallback w s)) = (if no_key w then provider_calls s else Suc (provider_calls s))"
    using f by (auto simp: liveOrFallback_def split: sum.splits option.splits)
qed

lemma liveOrFallback_success:
  assumes "provider_yield w s = Some items"
  shows "liveOrFallback w s =
           (Inr (stamp_all w ''Gemini AI generated'' (Suc (clock_reads s)) items),
            s\<lparr>provider_calls := Suc (provider_calls s),
              cache := \<lparr>mspRates = Some (stamp_all w ''Gemini AI generated'' (Suc (clock_reads s)) items),
                         timestamp = Date_now w (Suc (clock_reads s) + length items)\<rparr>,
              clock_reads := Suc (Suc (clock_reads s) + length items)\<rparr>)"
  by (simp add: liveOrFallback_def fetchLive_success[OF assms])

lemma liveOrFallback_resolves: "\<exists>rates. fst (liveOrFallback w s) = Inr rates"
  by (cases "fetchLive w s") (auto simp: liveOrFallback_def split: sum.splits option.splits)

lemma getMSPRates_body_resolves: "\<exists>rates. fst (getMSPRates_body w s) = Inr rates"
  using liveOrFallback_resolves
  by (auto simp: getMSPRates_body_def Let_def split: option.splits)

lemma getMSPRates_is_body: "getMSPRates w s = getMSPRates_body w s"
proof -
  obtain r s' where b: "getMSPRates_body w s = (r, s')" by (cases "getMSPRates_body w s")
  with getMSPRates_body_resolves[of w s] obtain rates where "r = Inr rates" by auto
  with b show ?thesis by (simp add: getMSPRates_def)
qed

lemma getMSPRates_hit:
  assumes "mspRates (cache s) = Some cached" "Date_now w (clock_reads s) - timestamp (cache s) < 3600000"
  shows "getMSPRates w s = (Inr cached, s\<lparr>clock_reads := Suc (clock_reads s)\<rparr>)"
  using assms by (simp add: getMSPRates_is_body getMSPRates_body_def cache_expiry_def)

lemma getMSPRates_miss:
  assumes "\<not> cache_fresh w s"
  shows "getMSPRates w s = liveOrFallback w (after_cache_check s)"
  using assms
  by (auto simp: getMSPRates_is_body getMSPRates_body_def cache_expiry_def cache_fresh_def after_cache_check_def split: option.splits)

lemma provider_yield_after_check [simp]: "provider_yield w (after_cache_check s) = provider_yield w s"
  by (simp add: provider_yield_def after_cache_check_def split: option.splits)

lemma after_cache_check_simps [simp]:
  "cache (after_cache_check s) = cache s"
  "provider_calls (after_cache_check s) = provider_calls s"
  by (simp_all add: after_cache_check_def split: option.splits)

subsection \<open>The cache holds objects only\<close>

lemma stamp_all_objects: "list_all is_object (stamp_all w src n items)"
  by (simp add: stamp_all_def stamp_item_def list_all_iff split: prod.splits)

lemma fallback_objects: "list_all is_object fallbackMSPRates"
  by (simp add: fallbackMSPRates_def)

lemma getMSPRates_objects:
  assumes "cache_wf s"
  shows "\<exists>rates. fst (getMSPRates w s) = Inr rates \<and> list_all is_object rates"
    and "cache_wf (snd (getMSPRates w s))"
proof -
  have "(\<exists>rates. fst (getMSPRates w s) = Inr rates \<and> list_all is_object rates)
        \<and> cache_wf (snd (getMSPRates w s))"
  proof (cases "cache_fresh w s")
    case True
    then obtain cached where c: "mspRates (cache s) = Some cached"
      "Date_now w (clock_reads s) - timestamp (cache s) < 3600000"
      by (auto simp: cache_fresh_def split: option.splits)
    with assms show ?thesis
      by (simp add: getMSPRates_hit[OF c] cache_wf_def)
  next
    case False
    note miss = getMSPRates_miss[OF False]
    show ?thesis
    proof (cases "provider_yield w s")
      case None
      then have y: "provider_yield w (after_cache_check s) = None" by simp
      from liveOrFallback_failure[OF y] assms show ?thesis
        by (simp add: miss fallback_objects cache_wf_def)
    next
      case (Some items)
      then have y: "provider_yield w (after_cache_check s) = Some items" by simp
      show ?thesis
        by (simp add: miss liveOrFallback_success[OF y] stamp_all_objects cache_wf_def)
    qed
  qed
  then show "\<exists>rates. fst (getMSPRates w s) = Inr rates \<and> list_all is_object rates"
    and "cache_wf (snd (getMSPRates w s))" by simp_all
qed

lemma fetchHistory_cache [simp]: "cache (snd (fetchHistory w crop s)) = cache s"
  by (auto simp: fetchHistory_def callProvider_def Let_def split: sum.splits option.splits)

lemma getMSPHistory_body_cache:
  "cache (snd (getMSPHistory_body w cropId s)) = cache (snd (getMSPRates w s))"
proof -
  obtain r s1 where g: "getMSPRates w s = (r, s1)" by (cases "getMSPRates w s")
  have h: "cache (snd (case fetchHistory w crop s1 of
                    (Inr (Some sortedData), s2) \<Rightarrow> (Inr sortedData, s2)
                  | (Inr None, s2) \<Rightarrow> (syntheticHistory crop, s2)
                  | (Inl e, s2) \<Rightarrow> (syntheticHistory crop, s2))) = cache s1" for crop
    using fetchHistory_cache[of w crop s1]
    by (cases "fetchHistory w crop s1") (auto split: sum.splits option.splits)
  show ?thesis
    using g h by (auto simp: getMSPHistory_body_def split: sum.splits option.splits)
qed

lemma getMSPHistory_cache: "cache (snd (getMSPHistory w cropId s)) = cache (snd (getMSPRates w s))"
  using getMSPHistory_body_cache[of w cropId s]
  by (cases "getMSPHistory_body w cropId s") (auto simp: getMSPHistory_def split: sum.splits)

lemma getMSPRatesByCategory_state: "snd (getMSPRatesByCategory w category s) = snd (getMSPRates w s)"
  by (cases "getMSPRates w s") (auto simp: getMSPRatesByCategory_def split: sum.splits)

lemma reachable_cache_wf: "reachable w s \<Longrightarrow> cache_wf s"
proof (induction rule: reachable.induct)
  case module_loaded
  show ?case by (simp add: cache_wf_def initial_state_def)
next
  case (after_getMSPRates s)
  then show ?case by (simp add: getMSPRates_objects)
next
  case (after_getMSPRatesByCategory s category)
  then show ?case by (simp add: getMSPRatesByCategory_state getMSPRates_objects)
next
  case (after_getMSPHistory s cropId)
  then have "cache_wf (snd (getMSPRates w s))" by (simp add: getMSPRates_objects)
  then show ?case by (simp add: cache_wf_def getMSPHistory_cache)
next
  case (after_clearMSPCache s)
  show ?case by (simp add: cache_wf_def clearMSPCache_def)
qed

lemma filterByCategory_objects:
  "list_all is_object rates \<Longrightarrow>
   filterByCategory category rates = Inr (filter (\<lambda>rate. getProp rate ''category'' = JStr category) rates)"
proof (induction rates)
  case Nil
  show ?case by simp
next
  case (Cons rate rest)
  then have "\<not> nullish rate" by (cases rate) simp_all
  with Cons show ?case by simp
qed

lemma getMSPHistory_resolves: "\<exists>points. fst (getMSPHistory w cropId s) = Inr points"
  by (cases "getMSPHistory_body w cropId s") (auto simp: getMSPHistory_def split: sum.splits)

lemma getMSPRates_resolves: "\<exists>rates. fst (getMSPRates w s) = Inr rates"
  by (simp add: getMSPRates_is_body getMSPRates_body_resolves)

lemma no_key_world_no_key: "no_key world_no_key"
  by (simp add: no_key_def world_no_key_def)

lemma cache_fresh_initial: "\<not> cache_fresh w initial_state"
  by (simp add: cache_fresh_def initial_state_def)

lemma provider_yield_no_key: "no_key w \<Longrightarrow> provider_yield w s = None"
  by (simp add: provider_yield_def)

lemma provider_yield_offline: "provider_yield world_offline s = None"
  by (simp add: provider_yield_def world_offline_def no_key_def)

text \<open>
  \<^verbatim>\<open>getMSPRatesByCategory\<close> has no \<^verbatim>\<open>try\<close>: on a cache holding \<^verbatim>\<open>null\<close>, which no
  call of the module produces, its filter throws. The reachability hypothesis of C1 and
  C8 is not idle.
\<close>

lemma byCategory_needs_objects:
  "fst (getMSPRatesByCategory w category
         \<lparr>cache = \<lparr>mspRates = Some [JNull], timestamp = Date_now w 0\<rparr>,
          provider_calls = 0, clock_reads = 0\<rparr>) = Inl TypeError"
  by (simp add: getMSPRatesByCategory_def getMSPRates_hit)

text \<open>What a call that the cache does not serve returns, and what it leaves behind.\<close>

lemma getMSPRates_miss_result:
  assumes "\<not> cache_fresh w s"
  shows "fst (getMSPRates w s) =
           Inr (case provider_yield w s of
                  None \<Rightarrow> fallbackMSPRates
                | Some items \<Rightarrow> stamp_all w ''Gemini AI generated'' (Suc (clock_reads (after_cache_check s))) items)"
    and "provider_calls (snd (getMSPRates w s)) = (if no_key w then provider_calls s else Suc (provider_calls s))"
    and "cache (snd (getMSPRates w s)) =
           (case provider_yield w s of
              None \<Rightarrow> cache s
            | Some items \<Rightarrow>
                \<lparr>mspRates = Some (stamp_all w ''Gemini AI generated'' (Suc (clock_reads (after_cache_check s))) items),
                 timestamp = Date_now w (Suc (clock_reads (after_cache_check s)) + length items)\<rparr>)"
proof -
  note miss = getMSPRates_miss[OF assms]
  have "fst (getMSPRates w s) =
           Inr (case provider_yield w s of
                  None \<Rightarrow> fallbackMSPRates
                | Some items \<Rightarrow> stamp_all w ''Gemini AI generated'' (Suc (clock_reads (after_cache_check s))) items)
     \<and> provider_calls (snd (getMSPRates w s)) = (if no_key w then provider_calls s else Suc (provider_calls s))
     \<and> cache (snd (getMSPRates w s)) =
           (case provider_yield w s of
              None \<Rightarrow> cache s
            | Some items \<Rightarrow>
                \<lparr>mspRates = Some (stamp_all w ''Gemini AI generated'' (Suc (clock_reads (after_cache_check s))) items),
                 timestamp = Date_now w (Suc (clock_reads (after_cache_check s)) + length items)\<rparr>)"
  proof (cases "provider_yield w s")
    case None
    then have y: "provider_yield w (after_cache_check s) = None" by simp
    from liveOrFallback_failure[OF y] None show ?thesis by (simp add: miss)
  next
    case (Some items)
    then have y: "provider_yield w (after_cache_check s) = Some items" by simp
    have "\<not> no_key w" using Some by (auto simp: provider_yield_def)
    with Some show ?thesis by (simp add: miss liveOrFallback_success[OF y])
  qed
  then show "fst (getMSPRates w s) =
           Inr (case provider_yield w s of
                  None \<Rightarrow> fallbackMSPRates
                | Some items \<Rightarrow> stamp_all w ''Gemini AI generated'' (Suc (clock_reads (after_cache_check s))) items)"
    and "provider_calls (snd (getMSPRates w s)) = (if no_key w then provider_calls s else Suc (provider_calls s))"
    and "cache (snd (getMSPRates w s)) =
           (case provider_yield w s of
              None \<Rightarrow> cache s
            | Some items \<Rightarrow>
                \<lparr>mspRates = Some (stamp_all w ''Gemini AI generated'' (Suc (clock_reads (after_cache_check s))) items),
                 timestamp = Date_now w (Suc (clock_reads (after_cache_check s)) + length items)\<rparr>)"
    by simp_all
qed

lemma coerce_one_object_text:
  "coerceResponse one_object_text = Some [JObj [(''id'', JStr ''x1''), (''category'', JStr ''rabi''), (''rate'', num 100)]]"
  by (simp add: coerceResponse_def parseResponse_def extractJsonString_def jsonMatch_1_def
      match_json_fence_def match_plain_fence_def match_here_def fence_close_def json_fence_open_def
      plain_fence_open_def one_object_text_def
      JSON_parse_def is_json_space_def is_digit_def json_number_def json_int_def json_frac_def
      json_exp_def digits_val_def digit_val_def pow10_def)

lemma provider_yield_answering:
  "provider_yield (world_answering responseText) s = coerceResponse responseText"
  by (simp add: provider_yield_def world_answering_def no_key_def)

subsection \<open>Without a credential\<close>

lemma no_key_getMSPRates:
  assumes "no_key w" "mspRates (cache s) = None"
  shows "getMSPRates w s = (Inr fallbackMSPRates, s)"
  using assms
  by (simp add: getMSPRates_is_body getMSPRates_body_def liveOrFallback_def fetchLive_no_key)

lemma no_key_fetchHistory: "no_key w \<Longrightarrow> fetchHistory w crop s = (Inl (Error ''No Gemini API key found''), s)"
  by (simp add: fetchHistory_def)

lemma no_key_getMSPHistory_state:
  assumes "no_key w" "mspRates (cache s) = None"
  shows "snd (getMSPHistory w cropId s) = s"
proof -
  have "snd (getMSPHistory_body w cropId s) = s"
    using assms
    by (auto simp: getMSPHistory_body_def no_key_getMSPRates no_key_fetchHistory split: sum.splits option.splits)
  then show ?thesis
    by (cases "getMSPHistory_body w cropId s") (auto simp: getMSPHistory_def split: sum.splits)
qed

lemma no_key_reachable:
  assumes "no_key w" "reachable w s"
  shows "s = initial_state"
  using assms(2)
proof (induction rule: reachable.induct)
  case module_loaded
  show ?case by simp
next
  case (after_getMSPRates s)
  then show ?case by (simp add: no_key_getMSPRates[OF assms(1)] initial_state_def)
next
  case (after_getMSPRatesByCategory s category)
  then show ?case
    by (simp add: getMSPRatesByCategory_state no_key_getMSPRates[OF assms(1)] initial_state_def)
next
  case (after_getMSPHistory s cropId)
  then show ?case by (simp add: no_key_getMSPHistory_state[OF assms(1)] initial_state_def)
next
  case (after_clearMSPCache s)
  then show ?case by (simp add: clearMSPCache_def initial_state_def)
qed

subsection \<open>The fence patterns, said without the search\<close>

lemma startsWith_iff: "startsWith p s \<longleftrightarrow> (\<exists>r. s = p @ r)"
  by (induction p s rule: startsWith.induct) auto

lemma startsWith_append [simp]: "startsWith p (p @ r)"
  by (simp add: startsWith_iff)

lemma lazy_until_sound:
  "lazy_until closer s = Some g \<Longrightarrow> \<exists>post. s = g @ closer @ post"
proof (induction s arbitrary: g)
  case Nil
  then show ?case by (auto simp: startsWith_iff split: if_splits)
next
  case (Cons c cs)
  show ?case
  proof (cases "startsWith closer (c # cs)")
    case True
    with Cons.prems show ?thesis by (auto simp: startsWith_iff)
  next
    case False
    with Cons.prems obtain g' where g': "lazy_until closer cs = Some g'" "g = c # g'" by auto
    from Cons.IH[OF g'(1)] g'(2) show ?thesis by auto
  qed
qed

lemma lazy_until_shortest:
  "lazy_until closer s = Some g \<Longrightarrow> s = g' @ closer @ post' \<Longrightarrow> length g \<le> length g'"
proof (induction s arbitrary: g g')
  case Nil
  then show ?case by (auto split: if_splits)
next
  case (Cons c cs)
  show ?case
  proof (cases "startsWith closer (c # cs)")
    case True
    with Cons.prems(1) have "g = []" by simp
    then show ?thesis by simp
  next
    case False
    with Cons.prems(1) obtain h where h: "lazy_until closer cs = Some h" "g = c # h" by auto
    from False Cons.prems(2) have "g' \<noteq> []" by (auto simp: startsWith_iff)
    then obtain t where t: "g' = c # t" "cs = t @ closer @ post'"
      using Cons.prems(2) by (cases g') auto
    from Cons.IH[OF h(1) t(2)] h(2) t(1) show ?thesis by simp
  qed
qed

lemma lazy_until_complete:
  "s = g' @ closer @ post' \<Longrightarrow> lazy_until closer s \<noteq> None"
proof (induction s arbitrary: g')
  case Nil
  then show ?case by simp
next
  case (Cons c cs)
  show ?case
  proof (cases "startsWith closer (c # cs)")
    case True
    then show ?thesis by simp
  next
    case False
    with Cons.prems have "g' \<noteq> []" by (auto simp: startsWith_iff)
    then obtain t where "g' = c # t" "cs = t @ closer @ post'"
      using Cons.prems by (cases g') auto
    from Cons.IH[OF this(2)] False show ?thesis by simp
  qed
qed

lemma match_here_sound:
  "match_here opener closer s = Some g \<Longrightarrow> \<exists>post. s = opener @ g @ closer @ post"
  by (auto simp: match_here_def startsWith_iff split: if_splits dest: lazy_until_sound)

lemma match_here_complete:
  "s = opener @ g' @ closer @ post' \<Longrightarrow> match_here opener closer s \<noteq> None"
  using lazy_until_complete[of "g' @ closer @ post'" g' closer post']
  by (simp add: match_here_def)

lemma match_here_shortest:
  "match_here opener closer s = Some g \<Longrightarrow> s = opener @ g' @ closer @ post' \<Longrightarrow> length g \<le> length g'"
  by (auto simp: match_here_def split: if_splits dest: lazy_until_shortest)

lemma regex_fence_first_block:
  "regex_fence opener closer t = Some g \<Longrightarrow> first_block opener closer t g"
proof (induction t)
  case Nil
  then have m: "match_here opener closer [] = Some g" by simp
  from match_here_sound[OF m] obtain post where p: "[] = opener @ g @ closer @ post" by blast
  then have "[] = [] @ opener @ g @ closer @ post" by simp
  moreover have "length ([]::string) < length pre' \<or> (length ([]::string) = length pre' \<and> length g \<le> length g')"
    if "[] = pre' @ opener @ g' @ closer @ post'" for pre' g' post' :: string
    using that p by simp
  ultimately show ?case unfolding first_block_def by blast
next
  case (Cons c cs)
  show ?case
  proof (cases "match_here opener closer (c # cs)")
    case (Some h)
    with Cons.prems have hg: "h = g" by simp
    from match_here_sound[OF Some] hg obtain post where p: "c # cs = opener @ g @ closer @ post" by blast
    then have "c # cs = [] @ opener @ g @ closer @ post" by simp
    moreover have "length ([]::string) < length pre' \<or> (length ([]::string) = length pre' \<and> length g \<le> length g')"
      if d: "c # cs = pre' @ opener @ g' @ closer @ post'" for pre' g' post'
    proof (cases pre')
      case Nil
      with d have "c # cs = opener @ g' @ closer @ post'" by simp
      from match_here_shortest[OF Some this] hg Nil show ?thesis by simp
    next
      case (Cons a as)
      then show ?thesis by simp
    qed
    ultimately show ?thesis unfolding first_block_def by blast
  next
    case None
    with Cons.prems have r: "regex_fence opener closer cs = Some g" by simp
    from Cons.IH[OF r] obtain pre post where
      p: "cs = pre @ opener @ g @ closer @ post"
      and m: "\<And>pre' g' post'. cs = pre' @ opener @ g' @ closer @ post' \<Longrightarrow>
              length pre < length pre' \<or> (length pre = length pre' \<and> length g \<le> length g')"
      unfolding first_block_def by blast
    from p have "c # cs = (c # pre) @ opener @ g @ closer @ post" by simp
    moreover have "length (c # pre) < length pre' \<or> (length (c # pre) = length pre' \<and> length g \<le> length g')"
      if d: "c # cs = pre' @ opener @ g' @ closer @ post'" for pre' g' post'
    proof (cases pre')
      case Nil
      with d have "c # cs = opener @ g' @ closer @ post'" by simp
      from match_here_complete[OF this] None show ?thesis by simp
    next
      case (Cons a as)
      with d have "cs = as @ opener @ g' @ closer @ post'" by simp
      from m[OF this] Cons show ?thesis by auto
    qed
    ultimately show ?thesis unfolding first_block_def by blast
  qed
qed

lemma regex_fence_no_block:
  "regex_fence opener closer t = None \<longleftrightarrow>
     \<not> (\<exists>pre g post. t = pre @ opener @ g @ closer @ post)"
proof (induction t)
  case Nil
  show ?case
  proof
    assume "regex_fence opener closer [] = None"
    then have n: "match_here opener closer [] = None" by simp
    show "\<not> (\<exists>pre g post. [] = pre @ opener @ g @ closer @ post)"
    proof
      assume "\<exists>pre g post. [] = pre @ opener @ g @ closer @ post"
      then obtain g post where "[] = opener @ g @ closer @ (post::string)" by auto
      from match_here_complete[OF this] n show False by simp
    qed
  next
    assume a: "\<not> (\<exists>pre g post. [] = pre @ opener @ g @ closer @ post)"
    show "regex_fence opener closer [] = None"
    proof (cases "match_here opener closer []")
      case None
      then show ?thesis by simp
    next
      case (Some g)
      from match_here_sound[OF this] a show ?thesis by (metis append_Nil)
    qed
  qed
next
  case (Cons c cs)
  show ?case
  proof
    assume r: "regex_fence opener closer (c # cs) = None"
    then have n: "match_here opener closer (c # cs) = None" and r': "regex_fence opener closer cs = None"
      by (auto split: option.splits)
    show "\<not> (\<exists>pre g post. c # cs = pre @ opener @ g @ closer @ post)"
    proof
      assume "\<exists>pre g post. c # cs = pre @ opener @ g @ closer @ post"
      then obtain pre g post where d: "c # cs = pre @ opener @ g @ closer @ post" by blast
      show False
      proof (cases pre)
        case Nil
        with d have "c # cs = opener @ g @ closer @ post" by simp
        from match_here_complete[OF this] n show False by simp
      next
        case (Cons a as)
        with d have "cs = as @ opener @ g @ closer @ post" by simp
        with r' Cons.IH show False by blast
      qed
    qed
  next
    assume a: "\<not> (\<exists>pre g post. c # cs = pre @ opener @ g @ closer @ post)"
    have n: "match_here opener closer (c # cs) = None"
    proof (cases "match_here opener closer (c # cs)")
      case None
      then show ?thesis .
    next
      case (Some g)
      from match_here_sound[OF this] a show ?thesis by (metis append_Nil)
    qed
    have "\<not> (\<exists>pre g post. cs = pre @ opener @ g @ closer @ post)"
    proof
      assume "\<exists>pre g post. cs = pre @ opener @ g @ closer @ post"
      then obtain pre g post where "cs = pre @ opener @ g @ closer @ post" by blast
      then have "c # cs = (c # pre) @ opener @ g @ closer @ post" by simp
      with a show False by blast
    qed
    with Cons.IH have "regex_fence opener closer cs = None" by simp
    with n show "regex_fence opener closer (c # cs) = None" by simp
  qed
qed

lemma first_block_unique:
  assumes "first_block opener closer t g" "first_block opener closer t h"
  shows "g = h"
proof -
  from assms(1) obtain pre post where
    p: "t = pre @ opener @ g @ closer @ post"
    and m: "\<And>pre' g' post'. t = pre' @ opener @ g' @ closer @ post' \<Longrightarrow>
              length pre < length pre' \<or> (length pre = length pre' \<and> length g \<le> length g')"
    unfolding first_block_def by blast
  from assms(2) obtain pre2 post2 where
    p2: "t = pre2 @ opener @ h @ closer @ post2"
    and m2: "\<And>pre' g' post'. t = pre' @ opener @ g' @ closer @ post' \<Longrightarrow>
              length pre2 < length pre' \<or> (length pre2 = length pre' \<and> length h \<le> length g')"
    unfolding first_block_def by blast
  from m[OF p2] m2[OF p] have l: "length pre = length pre2" "length g = length h" by auto
  from p p2 have "pre @ opener @ g @ closer @ post = pre2 @ opener @ h @ closer @ post2" by simp
  with l(1) have "g @ closer @ post = h @ closer @ post2" by simp
  with l(2) show ?thesis by simp
qed

lemma regex_fence_iff_first_block:
  "regex_fence opener closer t = Some g \<longleftrightarrow> first_block opener closer t g"
proof
  assume "regex_fence opener closer t = Some g"
  then show "first_block opener closer t g" by (rule regex_fence_first_block)
next
  assume f: "first_block opener closer t g"
  then have "\<exists>pre g post. t = pre @ opener @ g @ closer @ post"
    unfolding first_block_def by blast
  then have "regex_fence opener closer t \<noteq> None"
    by (simp add: regex_fence_no_block)
  then obtain h where h: "regex_fence opener closer t = Some h" by auto
  from regex_fence_first_block[OF h] f have "h = g" by (rule first_block_unique)
  with h show "regex_fence opener closer t = Some g" by simp
qed

subsection \<open>The coercion\<close>

lemma jsonMatch_1_cases:
  "(first_block json_fence_open fence_close t g \<longrightarrow> jsonMatch_1 t = g)
   \<and> ((\<forall>h. \<not> first_block json_fence_open fence_close t h) \<and> first_block plain_fence_open fence_close t g \<longrightarrow>
        jsonMatch_1 t = g)
   \<and> ((\<forall>h. \<not> first_block json_fence_open fence_close t h) \<and> (\<forall>h. \<not> first_block plain_fence_open fence_close t h) \<longrightarrow>
        jsonMatch_1 t = t)"
proof -
  have n: "(\<forall>h. \<not> first_block opener fence_close t h) \<longleftrightarrow> regex_fence opener fence_close t = None" for opener
    by (metis regex_fence_iff_first_block not_Some_eq)
  show ?thesis
    by (auto simp: jsonMatch_1_def match_json_fence_def match_plain_fence_def n
        regex_fence_iff_first_block[symmetric])
qed

lemma coerceResponse_cases:
  "coerceResponse t =
     (case JSON_parse (extractJsonString t) of
        Inl e \<Rightarrow> None
      | Inr (JArr (x # xs)) \<Rightarrow> Some (x # xs)
      | Inr other \<Rightarrow> None)"
proof (cases "JSON_parse (extractJsonString t)")
  case (Inl e)
  then show ?thesis by (simp add: coerceResponse_def parseResponse_def)
next
  case (Inr d)
  then show ?thesis
    by (cases d rule: nonEmptyArray.cases) (simp_all add: coerceResponse_def parseResponse_def)
qed

lemma coerce_fenced_example: "coerceResponse fenced_example = Some [JObj [(''a'', num 1)]]"
  by (simp add: coerceResponse_def parseResponse_def extractJsonString_def jsonMatch_1_def
      fence_defs fenced_example_def json_defs)

lemma coerce_bare_example: "coerceResponse bare_example = Some [JObj [(''a'', num 1)]]"
  by (simp add: coerceResponse_def parseResponse_def extractJsonString_def jsonMatch_1_def
      fence_defs bare_example_def json_defs)

lemma coerce_not_json: "coerceResponse ''not json'' = None"
  by (simp add: coerceResponse_def parseResponse_def extractJsonString_def jsonMatch_1_def
      fence_defs json_defs)

lemma empty_fence_match: "match_json_fence empty_fence_text = Some []"
  by (simp add: fence_defs empty_fence_text_def)

lemma empty_fence_extract: "extractJsonString empty_fence_text = empty_fence_text"
  by (simp add: extractJsonString_def jsonMatch_1_def empty_fence_match)

lemma empty_fence_coerce: "coerceResponse empty_fence_text = None"
  by (simp add: coerceResponse_def parseResponse_def empty_fence_extract)
     (simp add: empty_fence_text_def json_defs)

lemma no_first_block_iff:
  "(\<forall>h. \<not> first_block opener closer t h) \<longleftrightarrow> regex_fence opener closer t = None"
  by (metis regex_fence_iff_first_block not_Some_eq)

lemma empty_block_selected_jsonMatch: "empty_block_selected t \<Longrightarrow> jsonMatch_1 t = []"
  using jsonMatch_1_cases[of t "[]"] by (auto simp: empty_block_selected_def)

lemma empty_block_extract: "empty_block_selected t \<Longrightarrow> extractJsonString t = t"
  by (simp add: extractJsonString_def empty_block_selected_jsonMatch)

lemma fetchLive_site:
  assumes "\<not> no_key w" "generateContent w (provider_calls s) = Inr t"
  shows "fst (fetchLive w s) =
           Inr (map_option (stamp_all w ''Gemini AI generated'' (Suc (clock_reads s))) (coerceResponse t))"
  using assms
  by (simp add: fetchLive_def callProvider_def Let_def split: option.splits)

lemma fetchHistory_site:
  assumes "\<not> no_key w" "\<not> prompt_throws crop" "generateContent w (provider_calls s) = Inr t"
  shows "fst (fetchHistory w crop s) =
           Inr (case coerceResponse t of
                  None \<Rightarrow> None
                | Some historicalData \<Rightarrow>
                    (case sortByYear historicalData of Inl e \<Rightarrow> None | Inr sortedData \<Rightarrow> Some sortedData))"
  using assms
  by (simp add: fetchHistory_def callProvider_def Let_def split: option.splits sum.splits)

lemma processWithGemini_site:
  assumes "\<not> no_key w" "generateContent w (provider_calls s) = Inr t"
  shows "fst (processWithGemini_body w rawData s) =
           (case coerceResponse t of
              None \<Rightarrow> fst (transformDataToMSPRates w rawData (s\<lparr>provider_calls := Suc (provider_calls s)\<rparr>))
            | Some processedData \<Rightarrow> Inr (stamp_all w ''Gemini AI processed'' (clock_reads s) processedData))"
  using assms
  by (simp add: processWithGemini_body_def callProvider_def Let_def split: option.splits)

subsection \<open>The history\<close>


lemma history_yield_provider_throws:
  "generateContent w (provider_calls s) = Inl e \<Longrightarrow> history_yield w crop s = None"
  by (simp add: history_yield_def fetchHistory_def callProvider_def)

lemma history_yield_not_coerced:
  "generateContent w (provider_calls s) = Inr t \<Longrightarrow> coerceResponse t = None \<Longrightarrow>
   history_yield w crop s = None"
  by (simp add: history_yield_def fetchHistory_def callProvider_def)










text \<open>An increase of zero is falsy: the history is extrapolated with five percent of the rate.\<close>

lemma zero_increase_counts_as_absent:
  "syntheticHistory (JObj [(''id'', JStr ''x1''), (''year'', JStr ''2024-25''), (''rate'', num 100), (''increase'', num 0)]) =
     Inr [historyPoint (JStr ''2024-25'') (num 100),
          historyPoint (JStr ''2023-24'') (num 95),
          historyPoint (JStr ''2022-23'') (num 91),
          historyPoint (JStr ''2021-22'') (num (175 / 2)),
          historyPoint (JStr ''2020-21'') (num 84)]"
  by (simp add: syntheticHistory_def oneYearBack_def yearsBack_def assumedIncrease_def
      js_sub_def js_mul_def toNumber_def num_sub_def)

subsection \<open>The normalizer\<close>

lemma js_or_chain:
  "js_or a (js_or b (js_or c d)) = (case find truthy [a, b, c] of None \<Rightarrow> d | Some v \<Rightarrow> v)"
  by (simp add: js_or_def)









subsection \<open>A text with a fence is no JSON\<close>

text \<open>
  A text with a fence is no JSON: a backquote can only stand inside a string literal, and a
  line feed cannot. So the lexer fails on every text that holds an opening marker.
\<close>

lemma startsWith_before:
  "x \<notin> set p \<Longrightarrow> startsWith p (a @ x # r) = startsWith p a"
  by (induction p a rule: startsWith.induct) auto

lemma startsWith_length: "startsWith p a \<Longrightarrow> length p \<le> length a"
  by (induction p a rule: startsWith.induct) auto

lemma takeWhile_before: "\<not> P x \<Longrightarrow> takeWhile P (a @ x # r) = takeWhile P a"
  by (induction a) auto

lemma dropWhile_before: "\<not> P x \<Longrightarrow> dropWhile P (a @ x # r) = dropWhile P a @ x # r"
  by (induction a) auto

lemma backquote_no_hex: "\<not> is_radix_digit 16 backquote"
  unfolding backquote_def by code_simp

lemma backquote_facts:
  "\<not> is_digit backquote" "\<not> is_json_space backquote" "unescape backquote = None"
  by (simp_all add: backquote_def is_digit_def is_json_space_def unescape_def)

lemma keyword_before:
  "startsWith ''0'' (a @ backquote # r) = startsWith ''0'' a"
  "startsWith ''true'' (a @ backquote # r) = startsWith ''true'' a"
  "startsWith ''false'' (a @ backquote # r) = startsWith ''false'' a"
  "startsWith ''null'' (a @ backquote # r) = startsWith ''null'' a"
  by (rule startsWith_before, simp add: backquote_def)+

lemma take_sign_before:
  "take_sign (a @ backquote # r) = (fst (take_sign a), snd (take_sign a) @ backquote # r)"
  by (cases a) (simp_all add: take_sign_def backquote_def)

lemma json_int_before:
  "json_int (a @ backquote # r) = map_option (\<lambda>(ip, rest). (ip, rest @ backquote # r)) (json_int a)"
proof (cases "startsWith ''0'' a")
  case True
  then have "a \<noteq> []" by auto
  then have "drop 1 (a @ backquote # r) = drop 1 a @ backquote # r" by (cases a) simp_all
  with True show ?thesis by (simp add: json_int_def keyword_before)
next
  case False
  then show ?thesis
    by (simp add: json_int_def keyword_before backquote_facts takeWhile_before dropWhile_before)
qed

lemma json_frac_before:
  "json_frac (a @ backquote # r) = map_option (\<lambda>(fp, rest). (fp, rest @ backquote # r)) (json_frac a)"
  by (cases a) (simp_all add: json_frac_def backquote_facts takeWhile_before dropWhile_before, simp add: backquote_def)

lemma json_exp_before:
  "json_exp (a @ backquote # r) = map_option (\<lambda>(e, rest). (e, rest @ backquote # r)) (json_exp a)"
proof (cases a)
  case Nil
  then show ?thesis by (simp add: json_exp_def backquote_def)
next
  case (Cons c cs)
  then show ?thesis
    by (simp add: json_exp_def take_sign_before[of cs r] backquote_facts takeWhile_before
        dropWhile_before Let_def split: prod.splits)
qed

lemma json_number_before:
  "json_number ((c # cs) @ backquote # r) =
     map_option (\<lambda>(v, rest). (v, rest @ backquote # r)) (json_number (c # cs))"
proof -
  have i: "json_int (x @ backquote # r) = map_option (\<lambda>(ip, rest). (ip, rest @ backquote # r)) (json_int x)" for x
    by (rule json_int_before)
  show ?thesis
    using i[of cs] i[of "c # cs"]
    by (auto simp: json_number_def Let_def json_frac_before json_exp_before
        split: option.splits)
qed

lemma lex_string_before:
  assumes "lex_string (backquote # r) = None"
  shows "lex_string (a @ backquote # r) = map_option (\<lambda>(s, rest). (s, rest @ backquote # r)) (lex_string a)"
proof (induction a rule: lex_string.induct)
  case 1
  show ?case using assms by simp
next
  case (2 c cs)
  show ?case
  proof (cases "c = CHR 0x22 \<or> (of_char c :: nat) < 32")
    case True
    then show ?thesis by auto
  next
    case plain: False
    show ?thesis
    proof (cases "c = CHR 0x5C")
      case False
      with plain 2(3) show ?thesis
        by (simp add: option.map_comp comp_def split_def)
    next
      case bs: True
      show ?thesis
      proof (cases cs)
        case Nil
        with plain bs show ?thesis
          by (simp add: backquote_facts) (simp add: backquote_def)
      next
        case (Cons e es)
        show ?thesis
        proof (cases "e = CHR ''u''")
          case False
          show ?thesis
          proof (cases "unescape e")
            case None
            with plain bs Cons False show ?thesis by simp
          next
            case (Some ch)
            with plain bs Cons False 2(2)[OF _ _ bs Cons False Some] show ?thesis
              by (simp add: option.map_comp comp_def split_def)
          qed
        next
          case u: True
          show ?thesis
          proof (cases "length es < 4")
            case True
            then obtain k where "4 - length es = Suc k" by (cases "4 - length es") simp_all
            then have "backquote \<in> set (take 4 (es @ backquote # r))" by simp
            then have "\<not> list_all (is_radix_digit 16) (take 4 (es @ backquote # r))"
              using backquote_no_hex by (auto simp: list_all_iff)
            with plain bs Cons u True show ?thesis by simp
          next
            case False
            then have t: "take 4 (es @ backquote # r) = take 4 es"
              "drop 4 (es @ backquote # r) = drop 4 es @ backquote # r" by simp_all
            show ?thesis
            proof (cases "list_all (is_radix_digit 16) (take 4 es)")
              case h: True
              from False h have "\<not> (length es < 4 \<or> \<not> list_all (is_radix_digit 16) (take 4 es))" by simp
              from 2(1)[OF _ _ bs Cons u this] plain bs Cons u False h t show ?thesis
                by (simp add: option.map_comp comp_def split_def)
            next
              case False
              with plain bs Cons u t show ?thesis by simp
            qed
          qed
        qed
      qed
    qed
  qed
qed

lemma lex_fails_before_backquote:
  assumes "lex_string (backquote # r) = None"
  shows "lex (a @ backquote # r) = None"
proof (induction a rule: lex.induct)
  case 1
  show ?case by (simp add: backquote_facts) (simp add: backquote_def is_json_space_def is_digit_def)
next
  case (2 c cs)
  note ls = lex_string_before[OF assms, of cs]
  note jn = json_number_before[of c cs r]
  have kw: "length cs \<ge> 3" if "startsWith ''true'' (c # cs) \<or> startsWith ''null'' (c # cs)"
    using that startsWith_length[of "''true''" "c # cs"] startsWith_length[of "''null''" "c # cs"] by auto
  have kf: "length cs \<ge> 4" if "startsWith ''false'' (c # cs)"
    using that startsWith_length[of "''false''" "c # cs"] by auto
  have k: "startsWith ''true'' (c # cs @ backquote # r) = startsWith ''true'' (c # cs)"
    "startsWith ''false'' (c # cs @ backquote # r) = startsWith ''false'' (c # cs)"
    "startsWith ''null'' (c # cs @ backquote # r) = startsWith ''null'' (c # cs)"
    using keyword_before[of "c # cs" r] by simp_all
  show ?case
  proof (cases "is_json_space c \<or> c = CHR ''['' \<or> c = CHR '']'' \<or> c = CHR ''{'' \<or> c = CHR ''}''
                \<or> c = CHR '','' \<or> c = CHR '':''")
    case True
    with 2(1-7) show ?thesis by (auto simp del: startsWith.simps)
  next
    case punct: False
    show ?thesis
    proof (cases "c = CHR 0x22")
      case True
      show ?thesis
      proof (cases "lex_string cs")
        case None
        with punct True ls show ?thesis by simp
      next
        case (Some p)
        obtain str rest where p: "p = (str, rest)" by (cases p)
        from 2(8)[OF _ _ _ _ _ _ _ True Some[unfolded p] refl] punct
        have "lex (rest @ backquote # r) = None" by simp
        with punct True ls Some p show ?thesis by simp
      qed
    next
      case nq: False
      show ?thesis
      proof (cases "c = CHR ''-'' \<or> is_digit c")
        case True
        show ?thesis
        proof (cases "json_number (c # cs)")
          case None
          with punct nq True jn show ?thesis by simp
        next
          case (Some p)
          obtain v rest where p: "p = (v, rest)" by (cases p)
          from 2(9)[OF _ _ _ _ _ _ _ nq True Some[unfolded p] refl] punct
          have "lex (rest @ backquote # r) = None" by simp
          with punct nq True jn Some p show ?thesis by simp
        qed
      next
        case nn: False
        show ?thesis
        proof (cases "startsWith ''true'' (c # cs)")
          case True
          with kw have d: "drop 3 (cs @ backquote # r) = drop 3 cs @ backquote # r" by simp
          from 2(10)[OF _ _ _ _ _ _ _ nq nn True] punct
          have "lex (drop 3 cs @ backquote # r) = None" by simp
          with punct nq nn True k d show ?thesis by (simp del: startsWith.simps)
        next
          case nt: False
          show ?thesis
          proof (cases "startsWith ''false'' (c # cs)")
            case True
            with kf have d: "drop 4 (cs @ backquote # r) = drop 4 cs @ backquote # r" by simp
            from 2(11)[OF _ _ _ _ _ _ _ nq nn nt True] punct
            have "lex (drop 4 cs @ backquote # r) = None" by simp
            with punct nq nn nt True k d show ?thesis by (simp del: startsWith.simps)
          next
            case nf: False
            show ?thesis
            proof (cases "startsWith ''null'' (c # cs)")
              case True
              with kw have d: "drop 3 (cs @ backquote # r) = drop 3 cs @ backquote # r" by simp
              from 2(12)[OF _ _ _ _ _ _ _ nq nn nt nf True] punct
              have "lex (drop 3 cs @ backquote # r) = None" by simp
              with punct nq nn nt nf True k d show ?thesis by (simp del: startsWith.simps)
            next
              case False
              with punct nq nn nt nf k show ?thesis by (simp del: startsWith.simps)
            qed
          qed
        qed
      qed
    qed
  qed
qed

lemma opener_is_no_string:
  "lex_string (json_fence_open @ rest) = None" "lex_string (plain_fence_open @ rest) = None"
  by (simp_all add: json_fence_open_def plain_fence_open_def)

lemma text_with_opener_is_no_json:
  assumes "opener = json_fence_open \<or> opener = plain_fence_open"
  shows "JSON_parse (pre @ opener @ rest) = Inl SyntaxError"
proof -
  from assms obtain r where r: "opener @ rest = backquote # r" "lex_string (backquote # r) = None"
  proof
    assume o: "opener = json_fence_open"
    have "opener @ rest = backquote # (''``json\<newline>'' @ rest)"
      by (simp add: o json_fence_open_def backquote_def)
    moreover have "lex_string (backquote # (''``json\<newline>'' @ rest)) = None"
      using opener_is_no_string(1)[of rest] by (simp add: json_fence_open_def backquote_def)
    ultimately show ?thesis by (rule that)
  next
    assume o: "opener = plain_fence_open"
    have "opener @ rest = backquote # (''``\<newline>'' @ rest)"
      by (simp add: o plain_fence_open_def backquote_def)
    moreover have "lex_string (backquote # (''``\<newline>'' @ rest)) = None"
      using opener_is_no_string(2)[of rest] by (simp add: plain_fence_open_def backquote_def)
    ultimately show ?thesis by (rule that)
  qed
  from lex_fails_before_backquote[OF r(2), of pre] r(1)
  have "lex (pre @ opener @ rest) = None" by simp
  then show ?thesis by (simp add: JSON_parse_def)
qed

lemma matched_text_is_no_json:
  assumes "match_json_fence t \<noteq> None \<or> match_plain_fence t \<noteq> None"
  shows "JSON_parse t = Inl SyntaxError"
proof -
  from assms obtain opener where o: "opener = json_fence_open \<or> opener = plain_fence_open"
    and m: "regex_fence opener fence_close t \<noteq> None"
    by (auto simp: match_json_fence_def match_plain_fence_def)
  from m obtain pre g post where "t = pre @ opener @ g @ fence_close @ post"
    by (auto simp: regex_fence_no_block)
  then have "t = pre @ opener @ (g @ fence_close @ post)" by simp
  with text_with_opener_is_no_json[OF o] show ?thesis by simp
qed

lemma empty_text_is_no_json: "JSON_parse [] = Inl SyntaxError"
  by (simp add: JSON_parse_def)

lemma specified_selection_cases:
  "(first_block json_fence_open fence_close t g \<longrightarrow> specified_selection t = g)
   \<and> ((\<forall>h. \<not> first_block json_fence_open fence_close t h) \<and> first_block plain_fence_open fence_close t g \<longrightarrow>
        specified_selection t = g)
   \<and> ((\<forall>h. \<not> first_block json_fence_open fence_close t h) \<and> (\<forall>h. \<not> first_block plain_fence_open fence_close t h) \<longrightarrow>
        specified_selection t = t)"
  using jsonMatch_1_cases[of t g] by (simp add: specified_selection_def jsonMatch_1_def)

lemma coercion_refines_specification: "coerceResponse t = specified_coercion t"
proof (cases "jsonMatch_1 t = []")
  case False
  then have "extractJsonString t = specified_selection t"
    by (simp add: extractJsonString_def specified_selection_def jsonMatch_1_def)
  then show ?thesis
    by (simp add: coerceResponse_cases specified_coercion_def)
next
  case True
  then have e: "extractJsonString t = t" and s: "specified_selection t = []"
    by (simp_all add: extractJsonString_def specified_selection_def jsonMatch_1_def)
  have "JSON_parse t = Inl SyntaxError"
  proof (cases "match_json_fence t \<noteq> None \<or> match_plain_fence t \<noteq> None")
    case True
    then show ?thesis by (rule matched_text_is_no_json)
  next
    case False
    with \<open>jsonMatch_1 t = []\<close> have "t = []" by (simp add: jsonMatch_1_def)
    then show ?thesis by (simp add: empty_text_is_no_json)
  qed
  then show ?thesis
    by (simp add: coerceResponse_cases specified_coercion_def e s empty_text_is_no_json)
qed

lemma rateOf_argument: "rateOf record = parseFloat (rate_argument record)"
  by (simp only: rateOf_def js_or_chain rate_candidates_def rate_argument_def)

lemma previousRateOf_argument: "previousRateOf record = parseFloat (previous_argument record)"
  by (simp only: previousRateOf_def js_or_chain previous_candidates_def previous_argument_def)

lemma transformRecord_rejects:
  "\<not> accepted record \<Longrightarrow> transformRecord w n index record = Inl TypeError"
proof -
  assume na: "\<not> accepted record"
  show ?thesis
  proof (cases "nullish record")
    case True
    then show ?thesis by (simp add: transformRecord_def)
  next
    case nn: False
    show ?thesis
    proof (cases "cropValueOf record")
      case (JStr crop)
      with na nn have "coercion_throws (rate_argument record) \<or> coercion_throws (previous_argument record)"
        by (simp add: accepted_def)
      then have "rateOf record = Inl TypeError
                 \<or> (\<exists>rate. rateOf record = Inr rate \<and> previousRateOf record = Inl TypeError)"
        by (cases "coercion_throws (rate_argument record)")
           (auto simp: rateOf_argument previousRateOf_argument parseFloat_def)
      with nn JStr show ?thesis
        by (auto simp: transformRecord_def cropValueOf_def[symmetric] Let_def)
    qed (use nn in \<open>simp_all add: transformRecord_def cropValueOf_def[symmetric]\<close>)
  qed
qed


lemma scalar_never_throws: "is_scalar v \<Longrightarrow> \<not> coercion_throws v"
  by (cases v) simp_all

lemma flat_record_accepted:
  assumes "is_object record" and "\<And>k. is_scalar (getProp record k)"
    and "is_string (cropValueOf record)"
  shows "accepted record"
proof -
  have n: "\<not> nullish record" using assms(1) by (cases "record") simp_all
  have "is_scalar (rate_argument record)" "is_scalar (previous_argument record)"
    using assms(2)
    by (auto simp: rate_argument_def previous_argument_def rate_candidates_def previous_candidates_def)
  with n assms(3) show ?thesis
    by (simp add: accepted_def scalar_never_throws)
qed


lemma jsonMatch_1_is_specified: "jsonMatch_1 t = specified_selection t"
  by (simp add: jsonMatch_1_def specified_selection_def)

text \<open>
  Inside, the code and the specified algorithm differ on a block with an empty interior:
  the specified algorithm parses the empty string, the code the whole text (line 278).
  By \<open>coercion_refines_specification\<close> neither parse succeeds.
\<close>

lemma empty_interior_is_replaced:
  "first_block json_fence_open fence_close empty_fence_text []
   \<and> specified_selection empty_fence_text = []
   \<and> extractJsonString empty_fence_text = empty_fence_text
   \<and> extractJsonString empty_fence_text \<noteq> specified_selection empty_fence_text"
proof -
  have f: "first_block json_fence_open fence_close empty_fence_text []"
    using empty_fence_match by (simp add: match_json_fence_def regex_fence_iff_first_block)
  have m: "specified_selection empty_fence_text = []"
    by (simp add: specified_selection_def empty_fence_match)
  have "empty_fence_text \<noteq> []" by (simp add: empty_fence_text_def)
  with f m empty_fence_extract show ?thesis by simp
qed

section \<open>The claims\<close>

text \<open>
  C1. In every state the module can reach and in every environment (whatever the cache
  holds, whatever the provider answers or throws, whether or not a credential is
  configured, whether or not the answer parses), \<^verbatim>\<open>getMSPRates\<close>,
  \<^verbatim>\<open>getMSPRatesByCategory\<close> and \<^verbatim>\<open>getMSPHistory\<close> resolve with a value and never
  reject; and when the cache does not serve and the live tier yields nothing,
  \<^verbatim>\<open>getMSPRates\<close> resolves with \<^verbatim>\<open>fallbackMSPRates\<close>.
\<close>

theorem C1_no_error_reaches_the_caller:
  assumes "reachable w s"
  shows "(\<exists>rates. fst (getMSPRates w s) = Inr rates)
       \<and> (\<exists>rates. fst (getMSPRatesByCategory w category s) = Inr rates)
       \<and> (\<exists>points. fst (getMSPHistory w cropId s) = Inr points)
       \<and> (\<not> cache_fresh w s \<and> provider_yield w s = None \<longrightarrow>
            fst (getMSPRates w s) = Inr fallbackMSPRates)"
proof -
  from assms have wf: "cache_wf s" by (rule reachable_cache_wf)
  obtain allRates where r: "fst (getMSPRates w s) = Inr allRates" "list_all is_object allRates"
    using getMSPRates_objects(1)[OF wf] by blast
  have "fst (getMSPRatesByCategory w category s) = filterByCategory category allRates"
    using r(1) by (cases "getMSPRates w s") (simp add: getMSPRatesByCategory_def)
  then have cat: "\<exists>rates. fst (getMSPRatesByCategory w category s) = Inr rates"
    by (simp add: filterByCategory_objects[OF r(2)])
  have worst: "fst (getMSPRates w s) = Inr fallbackMSPRates"
    if "\<not> cache_fresh w s" "provider_yield w s = None"
  proof -
    from that(2) have "provider_yield w (after_cache_check s) = None" by simp
    from liveOrFallback_failure(1)[OF this] show ?thesis
      by (simp add: getMSPRates_miss[OF that(1)])
  qed
  from r(1) cat getMSPHistory_resolves worst show ?thesis by blast
qed

theorem C1_witness:
  "reachable world_offline (snd (getMSPRates world_offline initial_state))
   \<and> \<not> cache_fresh world_offline (snd (getMSPRates world_offline initial_state))
   \<and> provider_yield world_offline (snd (getMSPRates world_offline initial_state)) = None
   \<and> fst (getMSPRates world_offline (snd (getMSPRates world_offline initial_state))) = Inr fallbackMSPRates
   \<and> (\<exists>rates. fst (getMSPRatesByCategory world_offline ''rabi'' (snd (getMSPRates world_offline initial_state))) = Inr rates)
   \<and> (\<exists>points. fst (getMSPHistory world_offline ''k1'' (snd (getMSPRates world_offline initial_state))) = Inr points)"
proof -
  let ?s = "snd (getMSPRates world_offline initial_state)"
  have r: "reachable world_offline ?s"
    by (rule reachable.after_getMSPRates) (rule reachable.module_loaded)
  have "cache ?s = cache initial_state"
    using liveOrFallback_failure(2)[of world_offline "after_cache_check initial_state"]
    by (simp add: getMSPRates_miss[OF cache_fresh_initial] provider_yield_offline)
  then have f: "\<not> cache_fresh world_offline ?s"
    by (simp add: cache_fresh_def initial_state_def)
  show ?thesis
    using r f provider_yield_offline[of ?s] C1_no_error_reaches_the_caller[OF r, of "''rabi''" "''k1''"]
    by simp
qed

text \<open>
  C2. When the cache holds records and the clock read by the call minus the cached
  timestamp is below 3600000 ms, \<^verbatim>\<open>getMSPRates\<close> returns exactly the cached records,
  does not call the provider and leaves the cache as it is. When the records are absent
  or that age is at least 3600000 ms, the call is the live attempt of lines 222-303: the
  provider is called once when a credential is configured, and the result is the stamped
  answer of the provider, or the static table when the live tier yields nothing.
\<close>

theorem C2_cache_serves_within_the_hour:
  "(mspRates (cache s) = Some cached \<and> Date_now w (clock_reads s) - timestamp (cache s) < 3600000 \<longrightarrow>
      fst (getMSPRates w s) = Inr cached
      \<and> provider_calls (snd (getMSPRates w s)) = provider_calls s
      \<and> cache (snd (getMSPRates w s)) = cache s)
   \<and> (mspRates (cache s) = None \<or> 3600000 \<le> Date_now w (clock_reads s) - timestamp (cache s) \<longrightarrow>
      getMSPRates w s = liveOrFallback w (after_cache_check s)
      \<and> provider_calls (snd (getMSPRates w s)) = (if no_key w then provider_calls s else Suc (provider_calls s))
      \<and> fst (getMSPRates w s) =
           Inr (case provider_yield w s of
                  None \<Rightarrow> fallbackMSPRates
                | Some items \<Rightarrow>
                    stamp_all w ''Gemini AI generated'' (Suc (clock_reads (after_cache_check s))) items))"
proof (intro conjI impI)
  assume h: "mspRates (cache s) = Some cached \<and> Date_now w (clock_reads s) - timestamp (cache s) < 3600000"
  then have g: "getMSPRates w s = (Inr cached, s\<lparr>clock_reads := Suc (clock_reads s)\<rparr>)"
    by (simp add: getMSPRates_hit)
  show "fst (getMSPRates w s) = Inr cached" by (simp add: g)
  show "provider_calls (snd (getMSPRates w s)) = provider_calls s" by (simp add: g)
  show "cache (snd (getMSPRates w s)) = cache s" by (simp add: g)
next
  assume "mspRates (cache s) = None \<or> 3600000 \<le> Date_now w (clock_reads s) - timestamp (cache s)"
  then have miss: "\<not> cache_fresh w s"
    by (auto simp: cache_fresh_def split: option.splits)
  show "getMSPRates w s = liveOrFallback w (after_cache_check s)"
    by (rule getMSPRates_miss[OF miss])
  show "provider_calls (snd (getMSPRates w s)) = (if no_key w then provider_calls s else Suc (provider_calls s))"
    by (rule getMSPRates_miss_result(2)[OF miss])
  show "fst (getMSPRates w s) =
           Inr (case provider_yield w s of
                  None \<Rightarrow> fallbackMSPRates
                | Some items \<Rightarrow>
                    stamp_all w ''Gemini AI generated'' (Suc (clock_reads (after_cache_check s))) items)"
    by (rule getMSPRates_miss_result(1)[OF miss])
qed

theorem C2_witness:
  "mspRates (cache (state_cached one_record 2000)) = Some one_record
   \<and> Date_now world_offline (clock_reads (state_cached one_record 2000)) - timestamp (cache (state_cached one_record 2000)) < 3600000
   \<and> fst (getMSPRates world_offline (state_cached one_record 2000)) = Inr one_record
   \<and> provider_calls (snd (getMSPRates world_offline (state_cached one_record 2000))) = 1
   \<and> 3600000 \<le> Date_now world_offline (clock_reads (state_cached one_record (- 3600000))) - timestamp (cache (state_cached one_record (- 3600000)))
   \<and> fst (getMSPRates world_offline (state_cached one_record (- 3600000))) = Inr fallbackMSPRates
   \<and> provider_calls (snd (getMSPRates world_offline (state_cached one_record (- 3600000)))) = 2"
proof -
  let ?hit = "state_cached one_record 2000" and ?stale = "state_cached one_record (- 3600000)"
  have h1: "mspRates (cache ?hit) = Some one_record
            \<and> Date_now world_offline (clock_reads ?hit) - timestamp (cache ?hit) < 3600000"
    by (simp add: state_cached_def world_offline_def)
  have h2: "3600000 \<le> Date_now world_offline (clock_reads ?stale) - timestamp (cache ?stale)"
    by (simp add: state_cached_def world_offline_def)
  have k: "\<not> no_key world_offline"
    by (simp add: no_key_def world_offline_def)
  from h1 C2_cache_serves_within_the_hour[of ?hit one_record world_offline]
  have a: "fst (getMSPRates world_offline ?hit) = Inr one_record"
    "provider_calls (snd (getMSPRates world_offline ?hit)) = provider_calls ?hit"
    by blast+
  from h2 C2_cache_serves_within_the_hour[of ?stale one_record world_offline]
  have b: "fst (getMSPRates world_offline ?stale) =
             Inr (case provider_yield world_offline ?stale of
                    None \<Rightarrow> fallbackMSPRates
                  | Some items \<Rightarrow>
                      stamp_all world_offline ''Gemini AI generated''
                        (Suc (clock_reads (after_cache_check ?stale))) items)"
    "provider_calls (snd (getMSPRates world_offline ?stale)) =
       (if no_key world_offline then provider_calls ?stale else Suc (provider_calls ?stale))"
    by blast+
  have c: "provider_calls ?hit = 1" "provider_calls ?stale = 1"
    by (simp_all add: state_cached_def)
  show ?thesis
    using h1 h2 a b(1) by (simp add: b(2) k c provider_yield_offline)
qed

text \<open>
  C3. When \<^verbatim>\<open>getMSPRates\<close> is not served by the cache and the live tier yields nothing
  (no credential, the provider throws, or its text does not coerce), it returns the
  static table and both fields of the cache are as before; a later call, made when the
  clock has not gone back, is again not served by the cache. Conversely, a call that
  changes the cache is a call whose live tier succeeded, and it stores what it returns.
\<close>

theorem C3_fallback_is_never_cached:
  "(\<not> cache_fresh w s \<and> provider_yield w s = None \<longrightarrow>
      fst (getMSPRates w s) = Inr fallbackMSPRates
      \<and> cache (snd (getMSPRates w s)) = cache s
      \<and> (Date_now w (clock_reads s) \<le> Date_now w (clock_reads (snd (getMSPRates w s))) \<longrightarrow>
           \<not> cache_fresh w (snd (getMSPRates w s))))
   \<and> (cache (snd (getMSPRates w s)) \<noteq> cache s \<longrightarrow>
      \<not> cache_fresh w s
      \<and> (\<exists>items. provider_yield w s = Some items
            \<and> mspRates (cache (snd (getMSPRates w s))) = Some (stamp_all w ''Gemini AI generated'' (Suc (clock_reads (after_cache_check s))) items)
            \<and> fst (getMSPRates w s) = Inr (stamp_all w ''Gemini AI generated'' (Suc (clock_reads (after_cache_check s))) items)))"
proof (intro conjI impI)
  assume h: "\<not> cache_fresh w s \<and> provider_yield w s = None"
  then have miss: "\<not> cache_fresh w s" and none: "provider_yield w s = None" by simp_all
  show r: "fst (getMSPRates w s) = Inr fallbackMSPRates"
    using getMSPRates_miss_result(1)[OF miss] none by simp
  show c: "cache (snd (getMSPRates w s)) = cache s"
    using getMSPRates_miss_result(3)[OF miss] none by simp
  assume "Date_now w (clock_reads s) \<le> Date_now w (clock_reads (snd (getMSPRates w s)))"
  with miss c show "\<not> cache_fresh w (snd (getMSPRates w s))"
    by (auto simp: cache_fresh_def split: option.splits)
next
  assume changed: "cache (snd (getMSPRates w s)) \<noteq> cache s"
  show miss: "\<not> cache_fresh w s"
  proof
    assume "cache_fresh w s"
    then obtain cached where "mspRates (cache s) = Some cached"
      "Date_now w (clock_reads s) - timestamp (cache s) < 3600000"
      by (auto simp: cache_fresh_def split: option.splits)
    then have "cache (snd (getMSPRates w s)) = cache s"
      by (simp add: getMSPRates_hit)
    with changed show False by simp
  qed
  from changed getMSPRates_miss_result(3)[OF miss]
  obtain items where y: "provider_yield w s = Some items"
    by (cases "provider_yield w s") auto
  with getMSPRates_miss_result(1,3)[OF miss]
  show "\<exists>items. provider_yield w s = Some items
            \<and> mspRates (cache (snd (getMSPRates w s))) = Some (stamp_all w ''Gemini AI generated'' (Suc (clock_reads (after_cache_check s))) items)
            \<and> fst (getMSPRates w s) = Inr (stamp_all w ''Gemini AI generated'' (Suc (clock_reads (after_cache_check s))) items)"
    by simp
qed

theorem C3_witness:
  "\<not> cache_fresh world_offline initial_state
   \<and> provider_yield world_offline initial_state = None
   \<and> fst (getMSPRates world_offline initial_state) = Inr fallbackMSPRates
   \<and> cache (snd (getMSPRates world_offline initial_state)) = cache initial_state
   \<and> \<not> cache_fresh world_offline (snd (getMSPRates world_offline initial_state))
   \<and> cache (snd (getMSPRates (world_answering one_object_text) initial_state)) \<noteq> cache initial_state
   \<and> provider_yield (world_answering one_object_text) initial_state \<noteq> None"
proof -
  have a: "\<not> cache_fresh world_offline initial_state \<and> provider_yield world_offline initial_state = None"
    by (simp add: cache_fresh_initial provider_yield_offline)
  with C3_fallback_is_never_cached[of world_offline initial_state]
  have b: "fst (getMSPRates world_offline initial_state) = Inr fallbackMSPRates"
    "cache (snd (getMSPRates world_offline initial_state)) = cache initial_state"
    "Date_now world_offline (clock_reads initial_state) \<le> Date_now world_offline (clock_reads (snd (getMSPRates world_offline initial_state))) \<longrightarrow>
           \<not> cache_fresh world_offline (snd (getMSPRates world_offline initial_state))"
    by blast+
  have "Date_now world_offline (clock_reads initial_state) \<le> Date_now world_offline (clock_reads (snd (getMSPRates world_offline initial_state)))"
    by (simp add: world_offline_def initial_state_def)
  with b(3) have c: "\<not> cache_fresh world_offline (snd (getMSPRates world_offline initial_state))" by blast
  have y: "provider_yield (world_answering one_object_text) initial_state \<noteq> None"
    by (simp add: provider_yield_answering coerce_one_object_text)
  have d: "cache (snd (getMSPRates (world_answering one_object_text) initial_state)) \<noteq> cache initial_state"
    using getMSPRates_miss_result(3)[OF cache_fresh_initial, of "world_answering one_object_text"]
    by (simp add: provider_yield_answering coerce_one_object_text initial_state_def)
  from C3_fallback_is_never_cached[of "world_answering one_object_text" initial_state] d
  have "\<exists>items. provider_yield (world_answering one_object_text) initial_state = Some items" by blast
  with a b(1,2) c d y show ?thesis by simp
qed

text \<open>
  C4. The coercer computes what the algorithm of the specification computes, for every
  text: the interior of the first fenced block tagged as JSON if there is one, else the
  interior of the first untagged fenced block, else the full text, is parsed, and the
  result is the parsed array when it is a non-empty array and the soft failure \<open>None\<close>
  otherwise, on a parse error too: a value, never an exception. The fenced and the bare
  \<^verbatim>\<open>[{"a":1}]\<close> coerce to the array of the object \<^verbatim>\<open>{a: 1}\<close>, and \<^verbatim>\<open>"not json"\<close>
  to the failure.
\<close>

theorem C4_coercion_is_the_specified_algorithm:
  "coerceResponse t = specified_coercion t
   \<and> (first_block json_fence_open fence_close t g \<longrightarrow> specified_selection t = g)
   \<and> ((\<forall>h. \<not> first_block json_fence_open fence_close t h) \<and> first_block plain_fence_open fence_close t g \<longrightarrow>
        specified_selection t = g)
   \<and> ((\<forall>h. \<not> first_block json_fence_open fence_close t h) \<and> (\<forall>h. \<not> first_block plain_fence_open fence_close t h) \<longrightarrow>
        specified_selection t = t)
   \<and> coerceResponse fenced_example = Some [JObj [(''a'', num 1)]]
   \<and> coerceResponse bare_example = Some [JObj [(''a'', num 1)]]
   \<and> coerceResponse ''not json'' = None"
proof -
  note a = coercion_refines_specification[of t]
  note b = specified_selection_cases[of t g]
  from a b coerce_fenced_example coerce_bare_example coerce_not_json show ?thesis
    by (intro conjI) simp_all
qed

theorem C4_witness:
  \<open>first_block json_fence_open fence_close fenced_example ''[{"a":1}]''
   \<and> specified_selection fenced_example = ''[{"a":1}]''
   \<and> (\<forall>h. \<not> first_block json_fence_open fence_close plain_fenced_example h)
   \<and> first_block plain_fence_open fence_close plain_fenced_example ''[{"a":1}]''
   \<and> specified_selection plain_fenced_example = ''[{"a":1}]''
   \<and> (\<forall>h. \<not> first_block json_fence_open fence_close bare_example h)
   \<and> (\<forall>h. \<not> first_block plain_fence_open fence_close bare_example h)
   \<and> specified_selection bare_example = bare_example
   \<and> coerceResponse plain_fenced_example = Some [JObj [(''a'', num 1)]]\<close>
proof -
  have a: \<open>first_block json_fence_open fence_close fenced_example ''[{"a":1}]''\<close>
    unfolding regex_fence_iff_first_block[symmetric]
    by (simp add: fence_defs fenced_example_def)
  have b: "\<forall>h. \<not> first_block json_fence_open fence_close plain_fenced_example h"
    unfolding no_first_block_iff
    by (simp add: fence_defs plain_fenced_example_def)
  have c: \<open>first_block plain_fence_open fence_close plain_fenced_example ''[{"a":1}]''\<close>
    unfolding regex_fence_iff_first_block[symmetric]
    by (simp add: fence_defs plain_fenced_example_def)
  have d: "\<forall>h. \<not> first_block json_fence_open fence_close bare_example h"
    unfolding no_first_block_iff
    by (simp add: fence_defs bare_example_def)
  have e: "\<forall>h. \<not> first_block plain_fence_open fence_close bare_example h"
    unfolding no_first_block_iff
    by (simp add: fence_defs bare_example_def)
  have p: \<open>JSON_parse ''[{"a":1}]'' = Inr (JArr [JObj [(''a'', num 1)]])\<close>
    by (simp add: json_defs)
  from C4_coercion_is_the_specified_algorithm[of plain_fenced_example \<open>''[{"a":1}]''\<close>] b c
  have s: \<open>specified_selection plain_fenced_example = ''[{"a":1}]''\<close>
    and co: "coerceResponse plain_fenced_example = specified_coercion plain_fenced_example"
    by blast+
  from co s p have f: "coerceResponse plain_fenced_example = Some [JObj [(''a'', num 1)]]"
    by (simp add: specified_coercion_def)
  from C4_coercion_is_the_specified_algorithm[of fenced_example \<open>''[{"a":1}]''\<close>] a
  have g: \<open>specified_selection fenced_example = ''[{"a":1}]''\<close> by blast
  from C4_coercion_is_the_specified_algorithm[of bare_example] d e
  have h: "specified_selection bare_example = bare_example" by blast
  from a b c d e f g h s show ?thesis by blast
qed









text \<open>
  C8. For every category string, \<^verbatim>\<open>getMSPRatesByCategory\<close> returns exactly the records
  of \<^verbatim>\<open>getMSPRates\<close> whose \<^verbatim>\<open>category\<close> is that string, in their order, and changes
  the state as \<^verbatim>\<open>getMSPRates\<close> does; on the static table, \<^verbatim>\<open>'rabi'\<close> gives the two
  entries Wheat (r1) and Barley (r2).
\<close>

theorem C8_by_category_is_the_filter:
  assumes "reachable w s"
  shows "(\<exists>allRates.
            fst (getMSPRates w s) = Inr allRates
            \<and> fst (getMSPRatesByCategory w category s) =
                Inr (filter (\<lambda>rate. getProp rate ''category'' = JStr category) allRates))
       \<and> snd (getMSPRatesByCategory w category s) = snd (getMSPRates w s)
       \<and> fst (getMSPRatesByCategory world_no_key ''rabi'' initial_state) =
           Inr [JObj [(''id'', JStr ''r1''), (''crop'', JStr ''Wheat''),
                      (''category'', JStr ''rabi''), (''year'', JStr ''2024-25''), (''rate'', num 2275),
                      (''increase'', num 150), (''increasePercentage'', num (71 / 10))],
                JObj [(''id'', JStr ''r2''), (''crop'', JStr ''Barley''),
                      (''category'', JStr ''rabi''), (''year'', JStr ''2024-25''), (''rate'', num 1850),
                      (''increase'', num 115), (''increasePercentage'', num (66 / 10))]]"
proof -
  from assms have wf: "cache_wf s" by (rule reachable_cache_wf)
  obtain allRates where r: "fst (getMSPRates w s) = Inr allRates" "list_all is_object allRates"
    using getMSPRates_objects(1)[OF wf] by blast
  have "fst (getMSPRatesByCategory w category s) = filterByCategory category allRates"
    using r(1) by (cases "getMSPRates w s") (simp add: getMSPRatesByCategory_def)
  then have a: "fst (getMSPRatesByCategory w category s) =
                Inr (filter (\<lambda>rate. getProp rate ''category'' = JStr category) allRates)"
    by (simp add: filterByCategory_objects[OF r(2)])
  have "getMSPRates world_no_key initial_state = (Inr fallbackMSPRates, initial_state)"
    by (rule no_key_getMSPRates[OF no_key_world_no_key]) (simp add: initial_state_def)
  then have b: "fst (getMSPRatesByCategory world_no_key ''rabi'' initial_state) =
           Inr [JObj [(''id'', JStr ''r1''), (''crop'', JStr ''Wheat''),
                      (''category'', JStr ''rabi''), (''year'', JStr ''2024-25''), (''rate'', num 2275),
                      (''increase'', num 150), (''increasePercentage'', num (71 / 10))],
                JObj [(''id'', JStr ''r2''), (''crop'', JStr ''Barley''),
                      (''category'', JStr ''rabi''), (''year'', JStr ''2024-25''), (''rate'', num 1850),
                      (''increase'', num 115), (''increasePercentage'', num (66 / 10))]]"
    by (simp add: getMSPRatesByCategory_def fallbackMSPRates_def)
  from r(1) a b show ?thesis
    by (simp add: getMSPRatesByCategory_state)
qed

theorem C8_witness:
  "reachable (world_answering one_object_text) (snd (getMSPRates (world_answering one_object_text) initial_state))
   \<and> fst (getMSPRatesByCategory (world_answering one_object_text) ''rabi''
            (snd (getMSPRates (world_answering one_object_text) initial_state))) =
       Inr [JObj [(''id'', JStr ''x1''), (''category'', JStr ''rabi''), (''rate'', num 100),
                  (''source'', JStr ''Gemini AI generated''),
                  (''lastUpdated'', JStr ''2024-06-01T00:00:00.000Z'')]]
   \<and> fst (getMSPRatesByCategory (world_answering one_object_text) ''kharif''
            (snd (getMSPRates (world_answering one_object_text) initial_state))) = Inr []"
proof -
  let ?w = "world_answering one_object_text"
  let ?s = "snd (getMSPRates ?w initial_state)"
  have r: "reachable ?w ?s"
    by (rule reachable.after_getMSPRates) (rule reachable.module_loaded)
  have y: "provider_yield ?w initial_state = Some [JObj [(''id'', JStr ''x1''), (''category'', JStr ''rabi''), (''rate'', num 100)]]"
    by (simp add: provider_yield_answering coerce_one_object_text)
  have y': "provider_yield ?w (after_cache_check initial_state) =
              Some [JObj [(''id'', JStr ''x1''), (''category'', JStr ''rabi''), (''rate'', num 100)]]"
    using y by simp
  have s0: "?s = snd (liveOrFallback ?w (after_cache_check initial_state))"
    by (simp only: getMSPRates_miss[OF cache_fresh_initial])
  have s: "?s = \<lparr>cache = \<lparr>mspRates = Some [JObj [(''id'', JStr ''x1''), (''category'', JStr ''rabi''), (''rate'', num 100),
                  (''source'', JStr ''Gemini AI generated''),
                  (''lastUpdated'', JStr ''2024-06-01T00:00:00.000Z'')]], timestamp = 2000\<rparr>,
                provider_calls = 1, clock_reads = 3\<rparr>"
    unfolding s0 liveOrFallback_success[OF y']
    by (simp add: after_cache_check_def initial_state_def
        stamp_all_def stamp_item_def enumerate_eq_zip obj_set_def world_answering_def)
  have g: "fst (getMSPRates ?w ?s) = Inr [JObj [(''id'', JStr ''x1''), (''category'', JStr ''rabi''), (''rate'', num 100),
                  (''source'', JStr ''Gemini AI generated''),
                  (''lastUpdated'', JStr ''2024-06-01T00:00:00.000Z'')]]"
    unfolding s by (subst getMSPRates_hit) (simp_all add: world_answering_def)
  from C8_by_category_is_the_filter[OF r, of "''rabi''"] C8_by_category_is_the_filter[OF r, of "''kharif''"] g
  show ?thesis using r by simp
qed

text \<open>
  C9. With no credential configured, a call of \<^verbatim>\<open>getMSPRates\<close> that the cache does
  not serve returns the static table and does not call the provider; in a reachable
  state (where, without a credential, the cache was never filled) every call does so;
  and \<^verbatim>\<open>clearMSPCache\<close> followed by \<^verbatim>\<open>getMSPRates\<close> returns the static table,
  without a provider call and without an error.
\<close>

theorem C9_no_credential_no_call:
  assumes "no_key w"
  shows "(\<not> cache_fresh w s \<longrightarrow>
            fst (getMSPRates w s) = Inr fallbackMSPRates
            \<and> provider_calls (snd (getMSPRates w s)) = provider_calls s)
       \<and> (reachable w s \<longrightarrow>
            fst (getMSPRates w s) = Inr fallbackMSPRates
            \<and> provider_calls (snd (getMSPRates w s)) = 0)
       \<and> fst (getMSPRates w (clearMSPCache s)) = Inr fallbackMSPRates
       \<and> provider_calls (snd (getMSPRates w (clearMSPCache s))) = provider_calls s"
proof (intro conjI impI)
  assume miss: "\<not> cache_fresh w s"
  from getMSPRates_miss_result(1,2)[OF miss] assms
  show "fst (getMSPRates w s) = Inr fallbackMSPRates"
    and "provider_calls (snd (getMSPRates w s)) = provider_calls s"
    by (simp_all add: provider_yield_no_key)
next
  assume "reachable w s"
  with assms have s: "s = initial_state" by (rule no_key_reachable)
  have "getMSPRates w initial_state = (Inr fallbackMSPRates, initial_state)"
    by (rule no_key_getMSPRates[OF assms]) (simp add: initial_state_def)
  with s show "fst (getMSPRates w s) = Inr fallbackMSPRates"
    and "provider_calls (snd (getMSPRates w s)) = 0"
    by (simp_all add: initial_state_def)
next
  have "getMSPRates w (clearMSPCache s) = (Inr fallbackMSPRates, clearMSPCache s)"
    by (rule no_key_getMSPRates[OF assms]) (simp add: clearMSPCache_def)
  then show "fst (getMSPRates w (clearMSPCache s)) = Inr fallbackMSPRates"
    and "provider_calls (snd (getMSPRates w (clearMSPCache s))) = provider_calls s"
    by (simp_all add: clearMSPCache_def)
qed

theorem C9_witness:
  "no_key world_no_key
   \<and> \<not> cache_fresh world_no_key (state_cached one_record (- 3600000))
   \<and> fst (getMSPRates world_no_key (state_cached one_record (- 3600000))) = Inr fallbackMSPRates
   \<and> provider_calls (snd (getMSPRates world_no_key (state_cached one_record (- 3600000)))) = 1
   \<and> reachable world_no_key initial_state
   \<and> fst (getMSPRates world_no_key initial_state) = Inr fallbackMSPRates
   \<and> provider_calls (snd (getMSPRates world_no_key initial_state)) = 0
   \<and> fst (getMSPRates world_no_key (clearMSPCache (state_cached one_record 2000))) = Inr fallbackMSPRates
   \<and> provider_calls (snd (getMSPRates world_no_key (clearMSPCache (state_cached one_record 2000)))) = 1"
proof -
  have m: "\<not> cache_fresh world_no_key (state_cached one_record (- 3600000))"
    by (simp add: cache_fresh_def state_cached_def world_no_key_def)
  have c: "provider_calls (state_cached one_record (- 3600000)) = 1"
    "provider_calls (state_cached one_record 2000) = 1"
    by (simp_all add: state_cached_def)
  show ?thesis
    using m c no_key_world_no_key reachable.module_loaded[of world_no_key]
      C9_no_credential_no_call[OF no_key_world_no_key, of "state_cached one_record (- 3600000)"]
      C9_no_credential_no_call[OF no_key_world_no_key, of initial_state]
      C9_no_credential_no_call[OF no_key_world_no_key, of "state_cached one_record 2000"]
    by simp
qed

text \<open>
  C10. When the block the patterns select has an empty interior, the string handed to
  \<^verbatim>\<open>JSON.parse\<close> is the whole text, and the coercion is the coercion of the whole text,
  exactly as when the text has no fenced block at all. The three sites (lines 274-279 in
  \<^verbatim>\<open>getMSPRates\<close>, 348-353 in \<^verbatim>\<open>getMSPHistory\<close>, 146-151 in \<^verbatim>\<open>processWithGemini\<close>)
  have the same two lines; each of them continues from the coercion of the whole text.
\<close>

theorem C10_empty_interior_falls_back_to_the_whole_text:
  "(empty_block_selected t \<longrightarrow>
      jsonMatch_1 t = []
      \<and> extractJsonString t = t
      \<and> parseResponse t = JSON_parse t
      \<and> coerceResponse t = coerceWholeText t)
   \<and> ((\<forall>h. \<not> first_block json_fence_open fence_close t h)
        \<and> (\<forall>h. \<not> first_block plain_fence_open fence_close t h) \<longrightarrow>
      extractJsonString t = t \<and> coerceResponse t = coerceWholeText t)
   \<and> (empty_block_selected t \<and> \<not> no_key w \<and> generateContent w (provider_calls s) = Inr t \<longrightarrow>
      fst (fetchLive w s) =
        Inr (map_option (stamp_all w ''Gemini AI generated'' (Suc (clock_reads s))) (coerceWholeText t))
      \<and> fst (processWithGemini_body w rawData s) =
          (case coerceWholeText t of
             None \<Rightarrow> fst (transformDataToMSPRates w rawData (s\<lparr>provider_calls := Suc (provider_calls s)\<rparr>))
           | Some processedData \<Rightarrow> Inr (stamp_all w ''Gemini AI processed'' (clock_reads s) processedData))
      \<and> (\<not> prompt_throws crop \<longrightarrow>
           fst (fetchHistory w crop s) =
             Inr (case coerceWholeText t of
                    None \<Rightarrow> None
                  | Some historicalData \<Rightarrow>
                      (case sortByYear historicalData of Inl e \<Rightarrow> None | Inr sortedData \<Rightarrow> Some sortedData))))
   \<and> empty_block_selected empty_fence_text
   \<and> extractJsonString empty_fence_text = empty_fence_text"
proof -
  have whole: "coerceResponse t = coerceWholeText t" if "extractJsonString t = t"
    using that by (simp add: coerceResponse_def parseResponse_def coerceWholeText_def)
  have a: "jsonMatch_1 t = [] \<and> extractJsonString t = t \<and> parseResponse t = JSON_parse t
           \<and> coerceResponse t = coerceWholeText t" if "empty_block_selected t"
    using that whole
    by (simp add: empty_block_selected_jsonMatch empty_block_extract parseResponse_def)
  have b: "extractJsonString t = t \<and> coerceResponse t = coerceWholeText t"
    if "(\<forall>h. \<not> first_block json_fence_open fence_close t h)
        \<and> (\<forall>h. \<not> first_block plain_fence_open fence_close t h)"
  proof -
    from that jsonMatch_1_cases[of t] have "jsonMatch_1 t = t" by blast
    then have "extractJsonString t = t" by (simp add: extractJsonString_def)
    with whole show ?thesis by simp
  qed
  have c: "fst (fetchLive w s) =
        Inr (map_option (stamp_all w ''Gemini AI generated'' (Suc (clock_reads s))) (coerceWholeText t))
      \<and> fst (processWithGemini_body w rawData s) =
          (case coerceWholeText t of
             None \<Rightarrow> fst (transformDataToMSPRates w rawData (s\<lparr>provider_calls := Suc (provider_calls s)\<rparr>))
           | Some processedData \<Rightarrow> Inr (stamp_all w ''Gemini AI processed'' (clock_reads s) processedData))
      \<and> (\<not> prompt_throws crop \<longrightarrow>
           fst (fetchHistory w crop s) =
             Inr (case coerceWholeText t of
                    None \<Rightarrow> None
                  | Some historicalData \<Rightarrow>
                      (case sortByYear historicalData of Inl e \<Rightarrow> None | Inr sortedData \<Rightarrow> Some sortedData)))"
    if "empty_block_selected t \<and> \<not> no_key w \<and> generateContent w (provider_calls s) = Inr t"
  proof -
    from that a have w: "coerceResponse t = coerceWholeText t" by simp
    from that have k: "\<not> no_key w" and g: "generateContent w (provider_calls s) = Inr t" by simp_all
    show ?thesis
      using fetchLive_site[OF k g] processWithGemini_site[OF k g, of rawData]
        fetchHistory_site[OF k _ g, of crop]
      by (simp add: w)
  qed
  have d: "empty_block_selected empty_fence_text"
    using empty_fence_match
    by (simp add: empty_block_selected_def match_json_fence_def regex_fence_iff_first_block)
  from a b c d empty_fence_extract show ?thesis by blast
qed

theorem C10_witness:
  "empty_block_selected empty_fence_text
   \<and> \<not> no_key (world_answering empty_fence_text)
   \<and> generateContent (world_answering empty_fence_text) (provider_calls initial_state) = Inr empty_fence_text
   \<and> \<not> prompt_throws (hd fallbackMSPRates)
   \<and> parseResponse empty_fence_text = JSON_parse empty_fence_text
   \<and> coerceResponse empty_fence_text = None
   \<and> fst (fetchLive (world_answering empty_fence_text) initial_state) = Inr None
   \<and> fst (fetchHistory (world_answering empty_fence_text) (hd fallbackMSPRates) initial_state) = Inr None
   \<and> fst (processWithGemini_body (world_answering empty_fence_text) [] initial_state) = Inr []
   \<and> (\<forall>h. \<not> first_block json_fence_open fence_close bare_example h)
   \<and> (\<forall>h. \<not> first_block plain_fence_open fence_close bare_example h)
   \<and> extractJsonString bare_example = bare_example"
proof -
  let ?w = "world_answering empty_fence_text"
  have e: "empty_block_selected empty_fence_text"
    using empty_fence_match
    by (simp add: empty_block_selected_def match_json_fence_def regex_fence_iff_first_block)
  have k: "\<not> no_key ?w" by (simp add: no_key_def world_answering_def)
  have g: "generateContent ?w (provider_calls initial_state) = Inr empty_fence_text"
    by (simp add: world_answering_def)
  have p: "\<not> prompt_throws (hd fallbackMSPRates)"
    by (simp add: prompt_throws_def fallbackMSPRates_def)
  have n: "coerceWholeText empty_fence_text = None"
    by (simp add: coerceWholeText_def empty_fence_text_def json_defs)
  have d: "\<forall>h. \<not> first_block json_fence_open fence_close bare_example h"
    unfolding no_first_block_iff by (simp add: fence_defs bare_example_def)
  have d': "\<forall>h. \<not> first_block plain_fence_open fence_close bare_example h"
    unfolding no_first_block_iff by (simp add: fence_defs bare_example_def)
  have t: "transformDataToMSPRates ?w [] s = (Inr [], s)" for s
    by (simp add: transformDataToMSPRates_def)
  from C10_empty_interior_falls_back_to_the_whole_text[of empty_fence_text ?w initial_state "[]" "hd fallbackMSPRates"]
    C10_empty_interior_falls_back_to_the_whole_text[of bare_example ?w initial_state "[]" "hd fallbackMSPRates"]
    e k g p d d'
  show ?thesis by (simp add: n t)
qed

end
